theory Spec2Isabelle
  imports Main "HOL-Library.Word"
begin

unbundle bit_operations_syntax

section \<open>Register items (msr\_item.h)\<close>

text \<open>
  \<^verbatim>\<open>class MsrItem\<close> holds a 32-bit register index, a 64-bit value and a 64-bit mask.
  The default constructor gives register 0, value 0 and the mask \<^verbatim>\<open>kNoMask\<close>; the
  three-argument constructor defaults the mask to \<^verbatim>\<open>kNoMask\<close>.
\<close>

record MsrItem =
  m_reg :: "32 word"
  m_value :: "64 word"
  m_mask :: "64 word"

definition kNoMask :: "64 word" where
  "kNoMask = 0xFFFFFFFFFFFFFFFF"

definition MsrItem_default :: MsrItem where
  "MsrItem_default = \<lparr>m_reg = 0, m_value = 0, m_mask = kNoMask\<rparr>"

definition MsrItem_new :: "32 word \<Rightarrow> 64 word \<Rightarrow> MsrItem" where
  "MsrItem_new r v = \<lparr>m_reg = r, m_value = v, m_mask = kNoMask\<rparr>"

definition MsrItem_masked :: "32 word \<Rightarrow> 64 word \<Rightarrow> 64 word \<Rightarrow> MsrItem" where
  "MsrItem_masked r v m = \<lparr>m_reg = r, m_value = v, m_mask = m\<rparr>"

definition isValid :: "MsrItem \<Rightarrow> bool" where
  "isValid i = (m_reg i > 0)"

definition maskedValue :: "64 word \<Rightarrow> 64 word \<Rightarrow> 64 word \<Rightarrow> 64 word" where
  "maskedValue old_value new_value msk = (new_value AND msk) OR (old_value AND NOT msk)"

section \<open>CPU detection (randomx\_msr.cpp)\<close>

datatype CPUVendor = CPU_VENDOR_UNKNOWN | CPU_VENDOR_AMD | CPU_VENDOR_INTEL

datatype AMDFamily =
  AMD_UNKNOWN | AMD_RYZEN_17H | AMD_RYZEN_19H | AMD_RYZEN_ZEN4 | AMD_RYZEN_ZEN5

datatype MsrMod =
  MSR_MOD_NONE | MSR_MOD_RYZEN_17H | MSR_MOD_RYZEN_19H | MSR_MOD_RYZEN_ZEN4
  | MSR_MOD_RYZEN_ZEN5 | MSR_MOD_INTEL | MSR_MOD_CUSTOM | MSR_MOD_MAX

text \<open>The enumerators' integer values, used to index \<^verbatim>\<open>msrPresets\<close>.\<close>

fun mod_index :: "MsrMod \<Rightarrow> nat" where
  "mod_index MSR_MOD_NONE = 0"
| "mod_index MSR_MOD_RYZEN_17H = 1"
| "mod_index MSR_MOD_RYZEN_19H = 2"
| "mod_index MSR_MOD_RYZEN_ZEN4 = 3"
| "mod_index MSR_MOD_RYZEN_ZEN5 = 4"
| "mod_index MSR_MOD_INTEL = 5"
| "mod_index MSR_MOD_CUSTOM = 6"
| "mod_index MSR_MOD_MAX = 7"

text \<open>
  The arithmetic of \<^verbatim>\<open>DetectAMDFamily\<close> on the \<^verbatim>\<open>eax\<close> output of CPUID leaf 1:
  \<^verbatim>\<open>family = ((eax >> 8) & 0xF) + ((eax >> 20) & 0xFF)\<close> and
  \<^verbatim>\<open>model = ((eax >> 4) & 0xF) | ((eax >> 12) & 0xF0)\<close>, on \<^verbatim>\<open>uint32_t\<close>.
\<close>

definition amd_family_of :: "32 word \<Rightarrow> 32 word" where
  "amd_family_of eax = (drop_bit 8 eax AND 0xF) + (drop_bit 20 eax AND 0xFF)"

definition amd_model_of :: "32 word \<Rightarrow> 32 word" where
  "amd_model_of eax = (drop_bit 4 eax AND 0xF) OR (drop_bit 12 eax AND 0xF0)"

text \<open>The branches of \<^verbatim>\<open>DetectAMDFamily\<close> after the two values are computed.\<close>

definition classify_amd :: "32 word \<Rightarrow> AMDFamily" where
  "classify_amd eax =
     (let family = amd_family_of eax; model = amd_model_of eax in
      if family = 0x17 then AMD_RYZEN_17H
      else if family = 0x19 then
        (if model \<ge> 0x10 \<and> model < 0x70 then AMD_RYZEN_ZEN4
         else if model \<ge> 0x70 then AMD_RYZEN_ZEN5
         else AMD_RYZEN_19H)
      else AMD_UNKNOWN)"


section \<open>The environment and the process state\<close>

text \<open>
  What the code obtains from outside the process is a field of \<open>environ\<close>: the build
  target (\<^verbatim>\<open>__linux__\<close>, \<^verbatim>\<open>__x86_64__\<close>), the CPUID outputs, the number of
  logical CPUs, whether the debug log category \<^verbatim>\<open>msr\<close> is on, the outcome of the two
  access-enablement attempts of the \<^verbatim>\<open>MsrPrivate\<close> constructor, and the outcome of
  each device access. A device access is one \<^verbatim>\<open>open\<close>, one \<^verbatim>\<open>pread\<close> or
  \<^verbatim>\<open>pwrite\<close> of 8 bytes and one \<^verbatim>\<open>close\<close>; \<open>rd_ok t c r\<close> tells whether the read of
  register \<open>r\<close> on the device of CPU \<open>c\<close> succeeds when it is the \<open>t\<close>-th device access
  of the process, and \<open>wr_ok t c r v\<close> the same for writing \<open>v\<close>.

  The register file behind the devices is the simulated backend of the specification: a
  successful write stores its value, a successful read returns the stored value, and a
  failed access changes nothing. Every device access is appended to \<open>trace\<close>.
\<close>

datatype event =
  EvRead int "32 word" bool
| EvWrite int "32 word" "64 word" bool

datatype log_msg =
  L_msr_not_available
| L_mask_read_failed "32 word"
| L_masked_write "32 word" "64 word" "64 word"
| L_read "32 word" "64 word"
| L_amd_family_model "32 word" "32 word"
| L_detected MsrMod
| L_unknown_amd
| L_unknown_vendor
| L_backup_read_failed "32 word"
| L_no_cat_l3
| L_no_preset
| L_preset_empty
| L_applying MsrMod nat bool
| L_qos_needs_affinity
| L_applied MsrMod
| L_qos_enabled nat
| L_apply_failed
| L_apply_hint_root
| L_apply_hint_modprobe
| L_restoring
| L_cannot_restore
| L_restored
| L_restore_failed

record environ =
  linux :: bool
  x86_64 :: bool
  ncpus :: nat
  debug_msr :: bool
  vendor_id :: string
  cpuid1_eax :: "32 word"
  cpuid10_ebx :: "32 word"
  allow_writes_ok :: bool
  modprobe_ok :: bool
  rd_ok :: "nat \<Rightarrow> int \<Rightarrow> 32 word \<Rightarrow> bool"
  wr_ok :: "nat \<Rightarrow> int \<Rightarrow> 32 word \<Rightarrow> 64 word \<Rightarrow> bool"

text \<open>The accessor object: \<^verbatim>\<open>Msr\<close> with its \<^verbatim>\<open>MsrPrivate\<close>, whose only field is
  \<^verbatim>\<open>m_available\<close>.\<close>

record Msr =
  m_available :: bool

text \<open>
  The mutable state: the register file, the trace and the log, the singleton
  \<^verbatim>\<open>msr_instance\<close>, the static members of \<^verbatim>\<open>RandomX_Msr\<close> and the file-level
  \<^verbatim>\<open>original_msrs\<close>.
\<close>

record world =
  regs :: "int \<Rightarrow> 32 word \<Rightarrow> 64 word"
  trace :: "event list"
  logged :: "log_msg list"
  msr_instance :: "Msr option"
  m_enabled :: bool
  m_initialized :: bool
  m_cache_qos :: bool
  original_msrs :: "MsrItem list"

definition LogPrintf :: "log_msg \<Rightarrow> world \<Rightarrow> world" where
  "LogPrintf m w = w\<lparr>logged := logged w @ [m]\<rparr>"

text \<open>\<^verbatim>\<open>LogPrint("msr", ...)\<close> writes only when the category is enabled.\<close>

definition LogPrint_msr :: "environ \<Rightarrow> log_msg \<Rightarrow> world \<Rightarrow> world" where
  "LogPrint_msr e m w = (if debug_msr e then LogPrintf m w else w)"

section \<open>The register accessor (msr.cpp)\<close>

definition GetCPUList :: "environ \<Rightarrow> int list" where
  "GetCPUList e = map int [0..<ncpus e]"

text \<open>
  \<^verbatim>\<open>msr_open\<close> replaces a negative CPU id by the first entry of the CPU list, or by 0
  when the list is empty, and opens that CPU's device. The result here is the CPU whose
  device is opened; whether the access succeeds is the oracle's answer.
\<close>

definition msr_open_cpu :: "environ \<Rightarrow> int \<Rightarrow> int" where
  "msr_open_cpu e cpu =
     (if cpu < 0 then (case GetCPUList e of [] \<Rightarrow> 0 | c # _ \<Rightarrow> c) else cpu)"

definition rdmsr :: "environ \<Rightarrow> 32 word \<Rightarrow> int \<Rightarrow> world \<Rightarrow> 64 word option \<times> world" where
  "rdmsr e reg cpu w =
     (if \<not> linux e then (None, w)
      else
        let c = msr_open_cpu e cpu;
            success = rd_ok e (length (trace w)) c reg
        in (if success then Some (regs w c reg) else None,
            w\<lparr>trace := trace w @ [EvRead c reg success]\<rparr>))"

definition wrmsr :: "environ \<Rightarrow> 32 word \<Rightarrow> 64 word \<Rightarrow> int \<Rightarrow> world \<Rightarrow> bool \<times> world" where
  "wrmsr e reg val cpu w =
     (if \<not> linux e then (False, w)
      else
        let c = msr_open_cpu e cpu;
            success = wr_ok e (length (trace w)) c reg val
        in (success,
            w\<lparr>trace := trace w @ [EvWrite c reg val success],
              regs := (if success then (regs w)(c := (regs w c)(reg := val)) else regs w)\<rparr>))"

text \<open>The constructor: \<^verbatim>\<open>m_available(msr_allow_writes() || msr_modprobe())\<close> on Linux,
  \<^verbatim>\<open>false\<close> elsewhere, and the warning of \<^verbatim>\<open>Msr::Msr\<close>.\<close>

definition Msr_new :: "environ \<Rightarrow> world \<Rightarrow> Msr \<times> world" where
  "Msr_new e w =
     (let this = \<lparr>m_available = (linux e \<and> (allow_writes_ok e \<or> modprobe_ok e))\<rparr>
      in (this, if \<not> m_available this then LogPrintf L_msr_not_available w else w))"

definition Msr_get :: "environ \<Rightarrow> world \<Rightarrow> Msr \<times> world" where
  "Msr_get e w =
     (case msr_instance w of
        Some this \<Rightarrow> (this, w)
      | None \<Rightarrow> (case Msr_new e w of (this, w1) \<Rightarrow> (this, w1\<lparr>msr_instance := Some this\<rparr>)))"

definition isAvailable :: "Msr \<Rightarrow> bool" where
  "isAvailable this = m_available this"

definition Msr_write :: "environ \<Rightarrow> Msr \<Rightarrow> 32 word \<Rightarrow> 64 word \<Rightarrow> int \<Rightarrow> 64 word \<Rightarrow> bool
    \<Rightarrow> world \<Rightarrow> bool \<times> world" where
  "Msr_write e this reg val cpu msk verbose w =
     (if \<not> isAvailable this then (False, w)
      else if msk \<noteq> kNoMask then
        (case rdmsr e reg cpu w of
           (None, w1) \<Rightarrow>
             (False, if verbose then LogPrintf (L_mask_read_failed reg) w1 else w1)
         | (Some old_value, w1) \<Rightarrow>
             let val' = maskedValue old_value val msk;
                 w2 = (if verbose then LogPrintf (L_masked_write reg old_value val') w1 else w1)
             in wrmsr e reg val' cpu w2)
      else wrmsr e reg val cpu w)"

definition Msr_write_item :: "environ \<Rightarrow> Msr \<Rightarrow> MsrItem \<Rightarrow> int \<Rightarrow> bool \<Rightarrow> world \<Rightarrow> bool \<times> world" where
  "Msr_write_item e this item cpu verbose w =
     Msr_write e this (m_reg item) (m_value item) cpu (m_mask item) verbose w"

text \<open>The loop of \<^verbatim>\<open>Msr::write(Callback&&)\<close> over the CPU list.\<close>

fun for_each_cpu :: "(int \<Rightarrow> world \<Rightarrow> bool \<times> world) \<Rightarrow> int list \<Rightarrow> world \<Rightarrow> bool \<times> world" where
  "for_each_cpu callback [] w = (True, w)"
| "for_each_cpu callback (cpu # cpus) w =
     (case callback cpu w of
        (ok, w1) \<Rightarrow> if \<not> ok then (False, w1) else for_each_cpu callback cpus w1)"

definition Msr_write_callback :: "environ \<Rightarrow> (int \<Rightarrow> world \<Rightarrow> bool \<times> world) \<Rightarrow> world \<Rightarrow> bool \<times> world" where
  "Msr_write_callback e callback w = for_each_cpu callback (GetCPUList e) w"

definition Msr_read :: "environ \<Rightarrow> Msr \<Rightarrow> 32 word \<Rightarrow> int \<Rightarrow> bool \<Rightarrow> world \<Rightarrow> MsrItem \<times> world" where
  "Msr_read e this reg cpu verbose w =
     (case rdmsr e reg cpu w of
        (Some val, w1) \<Rightarrow>
          (MsrItem_new reg val, if verbose then LogPrintf (L_read reg val) w1 else w1)
      | (None, w1) \<Rightarrow> (MsrItem_default, w1))"


section \<open>The tuning controller (randomx\_msr.cpp)\<close>

definition msrPresets :: "MsrItem list list" where
  "msrPresets =
    [ [],
      [ MsrItem_new 0xC0011020 0,
        MsrItem_masked 0xC0011021 0x40 (NOT 0x20),
        MsrItem_new 0xC0011022 0x1510000,
        MsrItem_new 0xC001102b 0x2000cc16 ],
      [ MsrItem_new 0xC0011020 0x0004480000000000,
        MsrItem_masked 0xC0011021 0x001c000200000040 (NOT 0x20),
        MsrItem_new 0xC0011022 0xc000000401570000,
        MsrItem_new 0xC001102b 0x2000cc10 ],
      [ MsrItem_new 0xC0011020 0x0004400000000000,
        MsrItem_masked 0xC0011021 0x0004000000000040 (NOT 0x20),
        MsrItem_new 0xC0011022 0x8680000401570000,
        MsrItem_new 0xC001102b 0x2040cc10 ],
      [ MsrItem_new 0xC0011020 0x0004400000000000,
        MsrItem_masked 0xC0011021 0x0004000000000040 (NOT 0x20),
        MsrItem_new 0xC0011022 0x8680000401570000,
        MsrItem_new 0xC001102b 0x2040cc10 ],
      [ MsrItem_new 0x1a4 0xf ],
      [] ]"

definition DetectCPUVendor :: "environ \<Rightarrow> CPUVendor" where
  "DetectCPUVendor e =
     (if x86_64 e then
        (if vendor_id e = ''AuthenticAMD'' then CPU_VENDOR_AMD
         else if vendor_id e = ''GenuineIntel'' then CPU_VENDOR_INTEL
         else CPU_VENDOR_UNKNOWN)
      else CPU_VENDOR_UNKNOWN)"

definition DetectAMDFamily :: "environ \<Rightarrow> world \<Rightarrow> AMDFamily \<times> world" where
  "DetectAMDFamily e w =
     (if x86_64 e then
        (let eax = cpuid1_eax e
         in (classify_amd eax,
             LogPrint_msr e (L_amd_family_model (amd_family_of eax) (amd_model_of eax)) w))
      else (AMD_UNKNOWN, w))"

definition HasCatL3 :: "environ \<Rightarrow> bool" where
  "HasCatL3 e = (if x86_64 e then cpuid10_ebx e AND 0x2 \<noteq> 0 else False)"

definition DetectMsrMod :: "environ \<Rightarrow> world \<Rightarrow> MsrMod \<times> world" where
  "DetectMsrMod e w =
     (let vendor = DetectCPUVendor e in
      if vendor = CPU_VENDOR_AMD then
        (case DetectAMDFamily e w of
           (AMD_RYZEN_17H, w1) \<Rightarrow> (MSR_MOD_RYZEN_17H, LogPrintf (L_detected MSR_MOD_RYZEN_17H) w1)
         | (AMD_RYZEN_19H, w1) \<Rightarrow> (MSR_MOD_RYZEN_19H, LogPrintf (L_detected MSR_MOD_RYZEN_19H) w1)
         | (AMD_RYZEN_ZEN4, w1) \<Rightarrow> (MSR_MOD_RYZEN_ZEN4, LogPrintf (L_detected MSR_MOD_RYZEN_ZEN4) w1)
         | (AMD_RYZEN_ZEN5, w1) \<Rightarrow> (MSR_MOD_RYZEN_ZEN5, LogPrintf (L_detected MSR_MOD_RYZEN_ZEN5) w1)
         | (AMD_UNKNOWN, w1) \<Rightarrow> (MSR_MOD_NONE, LogPrintf L_unknown_amd w1))
      else if vendor = CPU_VENDOR_INTEL then
        (MSR_MOD_INTEL, LogPrintf (L_detected MSR_MOD_INTEL) w)
      else (MSR_MOD_NONE, LogPrintf L_unknown_vendor w))"

text \<open>The backup loop of \<^verbatim>\<open>ApplyMsrPreset\<close>: each register of the preset is read on CPU
  \<open>-1\<close>; an invalid result clears \<^verbatim>\<open>original_msrs\<close> and gives up.\<close>

fun backup_loop :: "environ \<Rightarrow> Msr \<Rightarrow> MsrItem list \<Rightarrow> world \<Rightarrow> bool \<times> world" where
  "backup_loop e msr [] w = (True, w)"
| "backup_loop e msr (item # items) w =
     (case Msr_read e msr (m_reg item) (- 1) True w of
        (orig, w1) \<Rightarrow>
          if \<not> isValid orig then
            (False, (LogPrintf (L_backup_read_failed (m_reg item)) w1)\<lparr>original_msrs := []\<rparr>)
          else backup_loop e msr items (w1\<lparr>original_msrs := original_msrs w1 @ [orig]\<rparr>))"

text \<open>The inner loop of both broadcast callbacks: write each item to the CPU and stop
  at the first failure.\<close>

fun write_items :: "environ \<Rightarrow> Msr \<Rightarrow> MsrItem list \<Rightarrow> int \<Rightarrow> world \<Rightarrow> bool \<times> world" where
  "write_items e msr [] cpu w = (True, w)"
| "write_items e msr (item # items) cpu w =
     (case Msr_write_item e msr item cpu False w of
        (ok, w1) \<Rightarrow> if \<not> ok then (False, w1) else write_items e msr items cpu w1)"

text \<open>The cache QoS part of the apply callback.\<close>

definition apply_cache_qos :: "environ \<Rightarrow> Msr \<Rightarrow> int set \<Rightarrow> int \<Rightarrow> world \<Rightarrow> bool \<times> world" where
  "apply_cache_qos e msr cache_enabled cpu w =
     (if cpu \<in> cache_enabled then
        (case Msr_write e msr 0xC8F 0 cpu kNoMask False w of
           (ok, w1) \<Rightarrow> if \<not> ok then (False, w1) else (True, w1))
      else
        (case Msr_write e msr 0xC91 0 cpu kNoMask False w of
           (ok0, w1) \<Rightarrow>
             (case (if \<not> ok0 then Msr_write e msr 0xC91 1 cpu kNoMask False w1 else (True, w1)) of
                (ok1, w2) \<Rightarrow>
                  if \<not> ok1 then (False, w2)
                  else
                    (case Msr_write e msr 0xC8F (push_bit 32 1) cpu kNoMask False w2 of
                       (ok2, w3) \<Rightarrow> if \<not> ok2 then (False, w3) else (True, w3)))))"

definition apply_callback :: "environ \<Rightarrow> Msr \<Rightarrow> MsrItem list \<Rightarrow> int set \<Rightarrow> bool \<Rightarrow> bool
    \<Rightarrow> int \<Rightarrow> world \<Rightarrow> bool \<times> world" where
  "apply_callback e msr preset cache_enabled cache_qos cache_qos_disabled cpu w =
     (case write_items e msr preset cpu w of
        (ok, w1) \<Rightarrow>
          if \<not> ok then (False, w1)
          else if cache_qos \<and> \<not> cache_qos_disabled then apply_cache_qos e msr cache_enabled cpu w1
          else (True, w1))"

definition ApplyMsrPreset :: "environ \<Rightarrow> MsrItem list \<Rightarrow> int list \<Rightarrow> bool \<Rightarrow> world \<Rightarrow> bool \<times> world" where
  "ApplyMsrPreset e preset thread_affinities cache_qos w =
     (case Msr_get e w of
        (msr, w1) \<Rightarrow>
          if \<not> isAvailable msr then (False, w1)
          else
            (case backup_loop e msr preset (w1\<lparr>original_msrs := []\<rparr>) of
               (ok, w2) \<Rightarrow>
                 if \<not> ok then (False, w2)
                 else
                   let cache_enabled = set thread_affinities;
                       cache_qos_disabled = (thread_affinities = []);
                       no_cat = (cache_qos \<and> \<not> cache_qos_disabled \<and> \<not> HasCatL3 e);
                       w3 = (if no_cat then LogPrintf L_no_cat_l3 w2 else w2);
                       cache_qos' = (if no_cat then False else cache_qos)
                   in Msr_write_callback e
                        (apply_callback e msr preset cache_enabled cache_qos' cache_qos_disabled) w3))"

definition Init :: "environ \<Rightarrow> int list \<Rightarrow> bool \<Rightarrow> world \<Rightarrow> bool \<times> world" where
  "Init e thread_affinities enable_cache_qos w =
     (if m_initialized w then (m_enabled w, w)
      else
        let w1 = w\<lparr>m_initialized := True, m_enabled := False, m_cache_qos := enable_cache_qos\<rparr>
        in (case DetectMsrMod e w1 of
              (msr_mod, w2) \<Rightarrow>
                if msr_mod = MSR_MOD_NONE \<or> mod_index msr_mod \<ge> mod_index MSR_MOD_MAX then
                  (False, LogPrintf L_no_preset w2)
                else
                  let preset = msrPresets ! mod_index msr_mod in
                  if preset = [] then (False, LogPrintf L_preset_empty w2)
                  else
                    let w3 = LogPrintf (L_applying msr_mod (length preset) (m_cache_qos w2)) w2;
                        w4 = (if m_cache_qos w3 \<and> thread_affinities = []
                              then LogPrintf L_qos_needs_affinity w3 else w3)
                    in (case ApplyMsrPreset e preset thread_affinities (m_cache_qos w4) w4 of
                          (ok, w5) \<Rightarrow>
                            let w6 = w5\<lparr>m_enabled := ok\<rparr> in
                            if ok then
                              (let w7 = LogPrintf (L_applied msr_mod) w6
                               in (m_enabled w7,
                                   if m_cache_qos w7 \<and> thread_affinities \<noteq> []
                                   then LogPrintf (L_qos_enabled (length thread_affinities)) w7
                                   else w7))
                            else
                              (let w7 = LogPrintf L_apply_hint_modprobe
                                          (LogPrintf L_apply_hint_root
                                            (LogPrintf L_apply_failed w6))
                               in (m_enabled w7, w7)))))"

text \<open>The callback of \<^verbatim>\<open>Destroy\<close> is the loop \<open>write_items\<close> over \<^verbatim>\<open>original_msrs\<close>, which
  the callback reads at each call.\<close>

definition restore_callback :: "environ \<Rightarrow> Msr \<Rightarrow> int \<Rightarrow> world \<Rightarrow> bool \<times> world" where
  "restore_callback e msr cpu w = write_items e msr (original_msrs w) cpu w"

definition Destroy :: "environ \<Rightarrow> world \<Rightarrow> world" where
  "Destroy e w =
     (if \<not> m_initialized w \<or> original_msrs w = [] then w
      else
        let w1 = LogPrintf L_restoring w in
        (case Msr_get e w1 of
           (msr, w2) \<Rightarrow>
             if \<not> isAvailable msr then LogPrintf L_cannot_restore w2
             else
               (case Msr_write_callback e (restore_callback e msr) w2 of
                  (success, w3) \<Rightarrow>
                    let w4 = (if success then LogPrintf L_restored w3
                              else LogPrintf L_restore_failed w3)
                    in w4\<lparr>original_msrs := [], m_initialized := False, m_enabled := False\<rparr>)))"

definition IsEnabled :: "world \<Rightarrow> bool" where
  "IsEnabled w = m_enabled w"

text \<open>The state of a process before any call.\<close>

definition world0 :: "(int \<Rightarrow> 32 word \<Rightarrow> 64 word) \<Rightarrow> world" where
  "world0 rf = \<lparr>regs = rf, trace = [], logged = [], msr_instance = None,
                m_enabled = False, m_initialized = False, m_cache_qos = False,
                original_msrs = []\<rparr>"


section \<open>The crash recovery frame (randomx\_fix.cpp)\<close>

text \<open>
  The file-level state of \<^verbatim>\<open>randomx_fix.cpp\<close>: the static \<^verbatim>\<open>m_initialized\<close> of
  \<^verbatim>\<open>RandomX_Fix\<close>, the process-wide dispositions of the two signals, and the two
  \<^verbatim>\<open>thread_local\<close> variables, one copy per thread: the flag
  \<^verbatim>\<open>exception_frame_active\<close> (initially \<^verbatim>\<open>false\<close>) and the buffer
  \<^verbatim>\<open>exception_env\<close>, which holds a resumable point only after a \<^verbatim>\<open>sigsetjmp\<close> has
  filled it.
\<close>

datatype signal = SIGSEGV | SIGILL

datatype disposition = SIG_DFL | SA_MainLoopHandler

datatype jmp_env = Unfilled | Captured nat

datatype fix_msg =
  F_handlers_installed
| F_install_failed
| F_not_available
| F_handlers_removed
| F_caught signal

datatype handler_result =
  Reraised signal
| Jumped jmp_env nat

record fix_environ =
  fix_linux :: bool
  debug_randomx :: bool
  sigaction_ok :: "signal \<Rightarrow> bool"

record fix_world =
  fix_initialized :: bool
  disposition_of :: "signal \<Rightarrow> disposition"
  exception_frame_active :: "nat \<Rightarrow> bool"
  exception_env :: "nat \<Rightarrow> jmp_env"
  fix_logged :: "fix_msg list"

definition fix_log :: "fix_msg \<Rightarrow> fix_world \<Rightarrow> fix_world" where
  "fix_log m f = f\<lparr>fix_logged := fix_logged f @ [m]\<rparr>"

definition fix_world0 :: fix_world where
  "fix_world0 = \<lparr>fix_initialized = False, disposition_of = (\<lambda>_. SIG_DFL),
                  exception_frame_active = (\<lambda>_. False), exception_env = (\<lambda>_. Unfilled),
                  fix_logged = []\<rparr>"

text \<open>\<^verbatim>\<open>sigaction(sig, &act, nullptr)\<close> with \<^verbatim>\<open>act.sa_sigaction = MainLoopHandler\<close>.\<close>

definition sigaction_install :: "fix_environ \<Rightarrow> signal \<Rightarrow> fix_world \<Rightarrow> bool \<times> fix_world" where
  "sigaction_install fe sig f =
     (if sigaction_ok fe sig
      then (True, f\<lparr>disposition_of := (disposition_of f)(sig := SA_MainLoopHandler)\<rparr>)
      else (False, f))"

text \<open>\<open>tid\<close> is the calling thread. The conjunction of the two \<^verbatim>\<open>sigaction\<close> calls is
  short-circuit: the second is made only when the first succeeded.\<close>

definition SetupMainLoopExceptionFrame :: "fix_environ \<Rightarrow> nat \<Rightarrow> fix_world \<Rightarrow> fix_world" where
  "SetupMainLoopExceptionFrame fe tid f =
     (if fix_initialized f then f
      else if fix_linux fe then
        (case sigaction_install fe SIGSEGV f of
           (ok1, f1) \<Rightarrow>
             (case (if ok1 then sigaction_install fe SIGILL f1 else (False, f1)) of
                (ok2, f2) \<Rightarrow>
                  if ok2 then (fix_log F_handlers_installed f2)\<lparr>fix_initialized := True\<rparr>
                  else fix_log F_install_failed f2))
      else fix_log F_not_available f)"

definition RemoveMainLoopExceptionFrame :: "fix_environ \<Rightarrow> nat \<Rightarrow> fix_world \<Rightarrow> fix_world" where
  "RemoveMainLoopExceptionFrame fe tid f =
     (if \<not> fix_initialized f then f
      else if fix_linux fe then
        (fix_log F_handlers_removed
           (f\<lparr>disposition_of := (disposition_of f)(SIGSEGV := SIG_DFL, SIGILL := SIG_DFL)\<rparr>))
          \<lparr>fix_initialized := False\<rparr>
      else f)"

text \<open>
  The handler, run on thread \<open>tid\<close> for signal \<open>sig\<close>. Its first branch resets the
  disposition and raises the signal again; its second branch is
  \<^verbatim>\<open>siglongjmp(exception_env, 1)\<close> on the thread's own buffer.
\<close>

definition MainLoopHandler :: "fix_environ \<Rightarrow> nat \<Rightarrow> signal \<Rightarrow> fix_world \<Rightarrow> handler_result \<times> fix_world" where
  "MainLoopHandler fe tid sig f =
     (if \<not> exception_frame_active f tid then
        (Reraised sig, f\<lparr>disposition_of := (disposition_of f)(sig := SIG_DFL)\<rparr>)
      else
        (Jumped (exception_env f tid) 1,
         if debug_randomx fe then fix_log (F_caught sig) f else f))"

section \<open>The classification in the words of the specification\<close>

text \<open>
  The specification's family code is the sum of the base-family field (bits 8 to 11 of
  the feature leaf) and the extended-family field (bits 20 to 27); its model number
  joins the extended-model field (bits 16 to 19) as the high nibble with the base-model
  field (bits 4 to 7) as the low nibble.
\<close>

definition spec_family :: "32 word \<Rightarrow> nat" where
  "spec_family leaf = (unat leaf div 2 ^ 8) mod 16 + (unat leaf div 2 ^ 20) mod 256"

definition spec_model :: "32 word \<Rightarrow> nat" where
  "spec_model leaf = 16 * ((unat leaf div 2 ^ 16) mod 16) + (unat leaf div 2 ^ 4) mod 16"

definition spec_amd_family :: "32 word \<Rightarrow> AMDFamily" where
  "spec_amd_family leaf =
     (if spec_family leaf = 0x17 then AMD_RYZEN_17H
      else if spec_family leaf = 0x19 then
        (if spec_model leaf < 0x10 then AMD_RYZEN_19H
         else if spec_model leaf \<le> 0x6F then AMD_RYZEN_ZEN4
         else AMD_RYZEN_ZEN5)
      else AMD_UNKNOWN)"

section \<open>Observations on traces\<close>

fun ev_ok :: "event \<Rightarrow> bool" where
  "ev_ok (EvRead c r ok) = ok"
| "ev_ok (EvWrite c r v ok) = ok"

fun is_write :: "event \<Rightarrow> bool" where
  "is_write (EvRead c r ok) = False"
| "is_write (EvWrite c r v ok) = True"

text \<open>
  A sequence of device accesses that ran to the result \<open>ok\<close>: either all of them
  succeeded, or the last one failed and all before it succeeded.
\<close>

definition run_of :: "bool \<Rightarrow> event list \<Rightarrow> bool" where
  "run_of ok evs =
     (if ok then list_all ev_ok evs
      else evs \<noteq> [] \<and> list_all ev_ok (butlast evs) \<and> \<not> ev_ok (last evs))"

text \<open>Two states agree on the controller's static data and on the accessor singleton.\<close>

definition ctl_eq :: "world \<Rightarrow> world \<Rightarrow> bool" where
  "ctl_eq w w' = (msr_instance w' = msr_instance w \<and> m_enabled w' = m_enabled w
     \<and> m_initialized w' = m_initialized w \<and> m_cache_qos w' = m_cache_qos w
     \<and> original_msrs w' = original_msrs w)"

text \<open>A stretch of execution from \<open>w\<close> to \<open>w'\<close> with result \<open>ok\<close> that only accessed
  devices: the trace grew by such a run, and the controller data and the log are as
  before.\<close>

definition steps :: "world \<Rightarrow> bool \<Rightarrow> world \<Rightarrow> bool" where
  "steps w ok w' = (\<exists>evs. trace w' = trace w @ evs \<and> run_of ok evs \<and> ctl_eq w w'
      \<and> logged w' = logged w)"

section \<open>Concrete environments\<close>

text \<open>Device oracles: every access succeeds; only the first device access fails; only
  the third device access fails; writes to CPU 0 fail from the fourth access on.\<close>

definition rd_always :: "nat \<Rightarrow> int \<Rightarrow> 32 word \<Rightarrow> bool" where
  "rd_always t c r = True"

definition wr_always :: "nat \<Rightarrow> int \<Rightarrow> 32 word \<Rightarrow> 64 word \<Rightarrow> bool" where
  "wr_always t c r v = True"

definition rd_first_fails :: "nat \<Rightarrow> int \<Rightarrow> 32 word \<Rightarrow> bool" where
  "rd_first_fails t c r = (t \<noteq> 0)"

definition wr_third_fails :: "nat \<Rightarrow> int \<Rightarrow> 32 word \<Rightarrow> 64 word \<Rightarrow> bool" where
  "wr_third_fails t c r v = (t \<noteq> 2)"

definition wr_cpu0_fails_late :: "nat \<Rightarrow> int \<Rightarrow> 32 word \<Rightarrow> 64 word \<Rightarrow> bool" where
  "wr_cpu0_fails_late t c r v = (t < 3 \<or> c \<noteq> 0)"

text \<open>A Linux x86-64 machine with an Intel CPU and two logical CPUs, and an AMD one
  with a given feature leaf.\<close>

definition env_intel :: "(nat \<Rightarrow> int \<Rightarrow> 32 word \<Rightarrow> bool)
    \<Rightarrow> (nat \<Rightarrow> int \<Rightarrow> 32 word \<Rightarrow> 64 word \<Rightarrow> bool) \<Rightarrow> environ" where
  "env_intel rd wr = \<lparr>linux = True, x86_64 = True, ncpus = 2, debug_msr = False,
     vendor_id = ''GenuineIntel'', cpuid1_eax = 0x000906EA, cpuid10_ebx = 0,
     allow_writes_ok = True, modprobe_ok = True, rd_ok = rd, wr_ok = wr\<rparr>"

definition env_amd :: "32 word \<Rightarrow> environ" where
  "env_amd eax = \<lparr>linux = True, x86_64 = True, ncpus = 2, debug_msr = False,
     vendor_id = ''AuthenticAMD'', cpuid1_eax = eax, cpuid10_ebx = 0,
     allow_writes_ok = True, modprobe_ok = True, rd_ok = rd_always, wr_ok = wr_always\<rparr>"

text \<open>The same Intel machine where neither access-enablement path succeeds while the
  devices themselves can be read.\<close>

definition env_unavailable :: environ where
  "env_unavailable = (env_intel rd_always wr_always)\<lparr>allow_writes_ok := False, modprobe_ok := False\<rparr>"

text \<open>A register file in which every register of CPU 0 holds \<open>0x10\<close> and every register
  of any other CPU holds \<open>0x11\<close>.\<close>

definition regs_by_cpu :: "int \<Rightarrow> 32 word \<Rightarrow> 64 word" where
  "regs_by_cpu c r = (if c = 0 then 0x10 else 0x11)"

text \<open>An environment for the recovery frame in which both \<^verbatim>\<open>sigaction\<close> calls succeed.\<close>

definition fix_env_ok :: fix_environ where
  "fix_env_ok = \<lparr>fix_linux = True, debug_randomx = False, sigaction_ok = (\<lambda>_. True)\<rparr>"

section \<open>Register items and classification\<close>

lemma kNoMask_minus1: "kNoMask = - 1"
  by (simp add: kNoMask_def)

lemma maskedValue_bit:
  "bit (maskedValue old_value new_value msk) n
     = (if bit msk n then bit new_value n else bit old_value n)"
  by (auto simp: maskedValue_def bit_simps dest: bit_imp_le_length)

text \<open>
  Claim C9. The masked merge of an old value, a new value and a mask is the new value
  on the bits of the mask and the old value elsewhere,
  \<open>(new AND mask) OR (old AND NOT mask)\<close>, for all 64-bit values; with the all-ones
  mask \<^verbatim>\<open>kNoMask\<close> it is the new value.
\<close>

theorem maskedValue_merge:
  "maskedValue old_value new_value msk = (new_value AND msk) OR (old_value AND NOT msk)
   \<and> maskedValue old_value new_value kNoMask = new_value
   \<and> kNoMask = NOT 0"
  by (simp add: maskedValue_def kNoMask_minus1)

lemma mask4: "(0xF :: 32 word) = mask 4"
  by (simp add: mask_eq_exp_minus_1)

lemma mask8: "(0xFF :: 32 word) = mask 8"
  by (simp add: mask_eq_exp_minus_1)

lemma maskF0: "(0xF0 :: 32 word) = push_bit 4 (mask 4)"
  by (simp add: mask_eq_exp_minus_1)

lemma unat_field: "unat (drop_bit k (w :: 32 word) AND mask n) = (unat w div 2 ^ k) mod 2 ^ n"
proof -
  have "unat (drop_bit k w AND mask n) = unat (take_bit n (drop_bit k w))"
    by (simp only: take_bit_eq_mask)
  also have "\<dots> = take_bit n (drop_bit k (unat w))"
    by (simp only: unsigned_take_bit_eq unat_drop_bit_eq)
  finally show ?thesis
    by (simp only: drop_bit_eq_div take_bit_eq_mod)
qed

lemma hi_nibble:
  "drop_bit 12 (eax :: 32 word) AND push_bit 4 (mask 4) = push_bit 4 (drop_bit 16 eax AND mask 4)"
  by (rule bit_word_eqI) (auto simp: bit_simps)

lemma unat_amd_family_of: "unat (amd_family_of eax) = spec_family eax"
proof -
  let ?a = "drop_bit 8 eax AND mask 4" and ?b = "drop_bit 20 eax AND mask 8"
  have a: "unat ?a < 16" and b: "unat ?b < 256"
    by (simp_all add: unat_field)
  have "unat (?a + ?b) = unat ?a + unat ?b"
    using a b by (simp add: unat_add_lem[THEN iffD1])
  then show ?thesis
    by (simp add: amd_family_of_def spec_family_def mask4 mask8 unat_field)
qed

lemma unat_amd_model_of: "unat (amd_model_of eax) = spec_model eax"
proof -
  let ?lo = "drop_bit 4 eax AND mask 4" and ?hi = "drop_bit 16 eax AND mask 4"
  have lo: "unat ?lo < 16" and hi: "unat ?hi < 16"
    by (simp_all add: unat_field)
  have "?lo OR push_bit 4 ?hi = ?lo + push_bit 4 ?hi"
    by (rule disjunctive_add_eq_or[symmetric]) (rule bit_word_eqI, auto simp: bit_simps)
  moreover have "push_bit 4 ?hi = 16 * ?hi"
    by (simp add: push_bit_eq_mult)
  moreover have "unat (?lo + 16 * ?hi) = unat ?lo + 16 * unat ?hi"
    using lo hi by (simp add: unat_word_ariths)
  ultimately show ?thesis
    by (simp add: amd_model_of_def spec_model_def mask4 maskF0 hi_nibble unat_field)
qed

lemma classify_amd_spec: "classify_amd eax = spec_amd_family eax"
proof -
  have f: "(amd_family_of eax = w) = (spec_family eax = unat w)" for w
    by (simp add: word_unat_eq_iff unat_amd_family_of)
  have le: "(w \<le> amd_model_of eax) = (unat w \<le> spec_model eax)" for w
    by (simp add: word_le_nat_alt unat_amd_model_of)
  have less: "(amd_model_of eax < w) = (spec_model eax < unat w)" for w
    by (simp add: word_less_nat_alt unat_amd_model_of)
  show ?thesis
    by (auto simp: classify_amd_def spec_amd_family_def Let_def f le less)
qed

text \<open>
  Claim C8. On an x86-64 build, for every value of the feature leaf,
  \<^verbatim>\<open>DetectAMDFamily\<close> returns the family that the specification's wording assigns:
  with family = base family + extended family and model = extended model and base model
  joined, family 0x17 is Zen1/Zen2 (\<open>AMD_RYZEN_17H\<close>), family 0x19 is Zen3
  (\<open>AMD_RYZEN_19H\<close>) for a model below 0x10, Zen4 for a model from 0x10 to 0x6F and
  Zen5 for a model from 0x70, and every other family is unknown.
\<close>

theorem DetectAMDFamily_classification:
  "x86_64 e \<Longrightarrow> fst (DetectAMDFamily e w) = spec_amd_family (cpuid1_eax e)"
  by (simp add: DetectAMDFamily_def Let_def classify_amd_spec)

text \<open>The boundary models 0x0F, 0x10, 0x6F and 0x70 of family 0x19, and a family 0x17
  leaf.\<close>

theorem DetectAMDFamily_classification_witness:
  "x86_64 (env_amd 0x00A00FF0)
   \<and> fst (DetectAMDFamily (env_amd 0x00A00FF0) (world0 regs_by_cpu)) = AMD_RYZEN_19H
   \<and> fst (DetectAMDFamily (env_amd 0x00A10F00) (world0 regs_by_cpu)) = AMD_RYZEN_ZEN4
   \<and> fst (DetectAMDFamily (env_amd 0x00A60FF0) (world0 regs_by_cpu)) = AMD_RYZEN_ZEN4
   \<and> fst (DetectAMDFamily (env_amd 0x00A70F00) (world0 regs_by_cpu)) = AMD_RYZEN_ZEN5
   \<and> fst (DetectAMDFamily (env_amd 0x00800F11) (world0 regs_by_cpu)) = AMD_RYZEN_17H"
proof -
  have x: "x86_64 (env_amd eax)" for eax
    by (simp add: env_amd_def)
  have c: "cpuid1_eax (env_amd eax) = eax" for eax
    by (simp add: env_amd_def)
  show ?thesis
    using DetectAMDFamily_classification [OF x, of "0x00A00FF0" "world0 regs_by_cpu"]
      DetectAMDFamily_classification [OF x, of "0x00A10F00" "world0 regs_by_cpu"]
      DetectAMDFamily_classification [OF x, of "0x00A60FF0" "world0 regs_by_cpu"]
      DetectAMDFamily_classification [OF x, of "0x00A70F00" "world0 regs_by_cpu"]
      DetectAMDFamily_classification [OF x, of "0x00800F11" "world0 regs_by_cpu"]
    by (simp add: x c spec_amd_family_def spec_family_def spec_model_def)
qed

section \<open>The accessor and the backup phase of Init\<close>

lemma isValid_default [simp]: "\<not> isValid MsrItem_default"
  by (simp add: isValid_def MsrItem_default_def)

lemma isValid_new [simp]: "isValid (MsrItem_new r v) = (r \<noteq> 0)"
  by (simp add: isValid_def MsrItem_new_def word_greater_zero_iff)

lemma ctl_eq_refl [simp]: "ctl_eq w w"
  by (simp add: ctl_eq_def)

lemma ctl_eq_trans: "ctl_eq w w1 \<Longrightarrow> ctl_eq w1 w2 \<Longrightarrow> ctl_eq w w2"
  by (simp add: ctl_eq_def)

lemma ctl_eq_LogPrintf [simp]: "ctl_eq w (LogPrintf m w')  = ctl_eq w w'"
  by (simp add: ctl_eq_def LogPrintf_def)

lemma LogPrintf_fields [simp]:
  "regs (LogPrintf m w) = regs w"
  "trace (LogPrintf m w) = trace w"
  "msr_instance (LogPrintf m w) = msr_instance w"
  "m_enabled (LogPrintf m w) = m_enabled w"
  "m_initialized (LogPrintf m w) = m_initialized w"
  "m_cache_qos (LogPrintf m w) = m_cache_qos w"
  "original_msrs (LogPrintf m w) = original_msrs w"
  "logged (LogPrintf m w) = logged w @ [m]"
  by (simp_all add: LogPrintf_def)

lemma rdmsr_frame:
  "rdmsr e reg cpu w = (r, w') \<Longrightarrow>
     ctl_eq w w' \<and> regs w' = regs w \<and> logged w' = logged w
     \<and> filter is_write (trace w') = filter is_write (trace w)"
  by (auto simp: rdmsr_def Let_def ctl_eq_def split: if_splits)

lemma rdmsr_cases:
  "rdmsr e reg cpu w = (r, w') \<Longrightarrow>
     (r \<noteq> None \<longrightarrow> length (trace w') = Suc (length (trace w))
                   \<and> linux e \<and> rd_ok e (length (trace w)) (msr_open_cpu e cpu) reg)"
  by (auto simp: rdmsr_def Let_def split: if_splits)

lemma rdmsr_fail:
  "\<not> rd_ok e (length (trace w)) (msr_open_cpu e cpu) reg \<Longrightarrow> fst (rdmsr e reg cpu w) = None"
  by (simp add: rdmsr_def Let_def)

lemma Msr_read_frame:
  "Msr_read e msr reg cpu verbose w = (it, w') \<Longrightarrow>
     ctl_eq w w' \<and> regs w' = regs w
     \<and> filter is_write (trace w') = filter is_write (trace w)"
  by (auto simp: Msr_read_def split: prod.splits option.splits dest!: rdmsr_frame)

lemma Msr_read_valid_length:
  "Msr_read e msr reg cpu verbose w = (it, w') \<Longrightarrow> isValid it \<Longrightarrow>
     length (trace w') = Suc (length (trace w))
     \<and> rd_ok e (length (trace w)) (msr_open_cpu e cpu) reg"
  by (auto simp: Msr_read_def split: prod.splits option.splits dest!: rdmsr_cases)

lemma backup_loop_frame:
  "backup_loop e msr items w = (ok, w') \<Longrightarrow>
     msr_instance w' = msr_instance w \<and> m_enabled w' = m_enabled w
     \<and> m_initialized w' = m_initialized w \<and> m_cache_qos w' = m_cache_qos w
     \<and> regs w' = regs w \<and> filter is_write (trace w') = filter is_write (trace w)"
proof (induction items arbitrary: w)
  case Nil
  then show ?case by simp
next
  case (Cons item items)
  obtain orig w1 where r: "Msr_read e msr (m_reg item) (- 1) True w = (orig, w1)"
    by (cases "Msr_read e msr (m_reg item) (- 1) True w")
  note f = Msr_read_frame [OF r]
  show ?case
  proof (cases "isValid orig")
    case False
    with Cons.prems r f show ?thesis by (auto simp: ctl_eq_def)
  next
    case True
    with Cons.prems r
    have "backup_loop e msr items (w1\<lparr>original_msrs := original_msrs w1 @ [orig]\<rparr>) = (ok, w')"
      by simp
    from Cons.IH [OF this] f show ?thesis by (simp add: ctl_eq_def)
  qed
qed

lemma backup_loop_failed:
  "backup_loop e msr items w = (False, w') \<Longrightarrow> original_msrs w' = []"
proof (induction items arbitrary: w)
  case Nil
  then show ?case by simp
next
  case (Cons item items)
  then show ?case
    by (auto split: prod.splits if_splits)
qed

lemma backup_loop_read_fails:
  assumes "i < length items"
    and "\<not> rd_ok e (length (trace w) + i) (msr_open_cpu e (- 1)) (m_reg (items ! i))"
  shows "\<not> fst (backup_loop e msr items w)"
  using assms
proof (induction items arbitrary: w i)
  case Nil
  then show ?case by simp
next
  case (Cons item items)
  obtain orig w1 where r: "Msr_read e msr (m_reg item) (- 1) True w = (orig, w1)"
    by (cases "Msr_read e msr (m_reg item) (- 1) True w")
  show ?case
  proof (cases "isValid orig")
    case False
    with r show ?thesis by simp
  next
    case True
    note v = Msr_read_valid_length [OF r True]
    have "i \<noteq> 0"
      using Cons.prems(2) v by (cases i) auto
    then obtain j where j: "i = Suc j" by (cases i) auto
    have "\<not> fst (backup_loop e msr items (w1\<lparr>original_msrs := original_msrs w1 @ [orig]\<rparr>))"
      using Cons.prems v by (intro Cons.IH [of j]) (simp_all add: j)
    with r True show ?thesis by simp
  qed
qed


lemma DetectAMDFamily_frame:
  "DetectAMDFamily e w = (fam, w') \<Longrightarrow> ctl_eq w w' \<and> regs w' = regs w \<and> trace w' = trace w"
  by (auto simp: DetectAMDFamily_def LogPrint_msr_def Let_def split: if_splits)

lemma DetectMsrMod_frame:
  "DetectMsrMod e w = (m, w') \<Longrightarrow> ctl_eq w w' \<and> regs w' = regs w \<and> trace w' = trace w"
  by (auto simp: DetectMsrMod_def Let_def split: if_splits prod.splits AMDFamily.splits
      dest!: DetectAMDFamily_frame)

lemma DetectAMDFamily_indep: "fst (DetectAMDFamily e w) = fst (DetectAMDFamily e w0)"
  by (simp add: DetectAMDFamily_def Let_def)

lemma DetectMsrMod_indep: "fst (DetectMsrMod e w) = fst (DetectMsrMod e w0)"
  using DetectAMDFamily_indep [of e w w0]
  by (auto simp: DetectMsrMod_def Let_def split: prod.splits AMDFamily.splits)

lemma DetectMsrMod_range:
  "fst (DetectMsrMod e w) \<in> {MSR_MOD_NONE, MSR_MOD_RYZEN_17H, MSR_MOD_RYZEN_19H,
     MSR_MOD_RYZEN_ZEN4, MSR_MOD_RYZEN_ZEN5, MSR_MOD_INTEL}"
  by (auto simp: DetectMsrMod_def Let_def split: prod.splits AMDFamily.splits)

lemma msrPresets_NONE: "msrPresets ! 0 = []"
  by (simp add: msrPresets_def)

lemma Msr_get_frame:
  "Msr_get e w = (msr, w') \<Longrightarrow>
     regs w' = regs w \<and> trace w' = trace w \<and> m_enabled w' = m_enabled w
     \<and> m_initialized w' = m_initialized w \<and> m_cache_qos w' = m_cache_qos w
     \<and> original_msrs w' = original_msrs w \<and> msr_instance w' = Some msr
     \<and> (isAvailable msr \<longrightarrow> logged w' = logged w)"
  by (auto simp: Msr_get_def Msr_new_def Let_def isAvailable_def split: option.splits if_splits)

lemma Msr_get_indep:
  "msr_instance w' = msr_instance w \<Longrightarrow> fst (Msr_get e w') = fst (Msr_get e w)"
  by (simp add: Msr_get_def Msr_new_def Let_def split: option.splits)

lemma ApplyMsrPreset_backup_fails:
  assumes av: "isAvailable (fst (Msr_get e w))"
    and i: "i < length preset"
    and rd: "\<not> rd_ok e (length (trace w) + i) (msr_open_cpu e (- 1)) (m_reg (preset ! i))"
  shows "\<exists>w'. ApplyMsrPreset e preset ta q w = (False, w') \<and> original_msrs w' = []
           \<and> regs w' = regs w \<and> filter is_write (trace w') = filter is_write (trace w)
           \<and> m_initialized w' = m_initialized w \<and> m_enabled w' = m_enabled w"
proof -
  obtain msr w1 where g: "Msr_get e w = (msr, w1)"
    by (cases "Msr_get e w")
  note gf = Msr_get_frame [OF g]
  let ?w2 = "w1\<lparr>original_msrs := []\<rparr>"
  obtain ok w3 where b: "backup_loop e msr preset ?w2 = (ok, w3)"
    by (cases "backup_loop e msr preset ?w2")
  have "\<not> fst (backup_loop e msr preset ?w2)"
    using i rd gf by (intro backup_loop_read_fails [of i]) simp_all
  with b have ok: "\<not> ok" by simp
  from b ok have "original_msrs w3 = []"
    by (auto dest: backup_loop_failed)
  moreover note backup_loop_frame [OF b]
  ultimately show ?thesis
    using av g gf b ok by (simp add: ApplyMsrPreset_def)
qed

lemma Init_backup_fails:
  assumes ni: "\<not> m_initialized w"
    and av: "isAvailable (fst (Msr_get e w))"
    and i: "i < length (msrPresets ! mod_index (fst (DetectMsrMod e w)))"
    and rd: "\<not> rd_ok e (length (trace w) + i) (msr_open_cpu e (- 1))
                (m_reg (msrPresets ! mod_index (fst (DetectMsrMod e w)) ! i))"
  shows "\<exists>w'. Init e ta q w = (False, w') \<and> original_msrs w' = []
           \<and> m_initialized w' \<and> \<not> m_enabled w'
           \<and> regs w' = regs w \<and> filter is_write (trace w') = filter is_write (trace w)"
proof -
  let ?w1 = "w\<lparr>m_initialized := True, m_enabled := False, m_cache_qos := q\<rparr>"
  obtain m w2 where d: "DetectMsrMod e ?w1 = (m, w2)"
    by (cases "DetectMsrMod e ?w1")
  have m: "m = fst (DetectMsrMod e w)"
    using d DetectMsrMod_indep [of e ?w1 w] by simp
  note df = DetectMsrMod_frame [OF d]
  let ?preset = "msrPresets ! mod_index m"
  have ne: "?preset \<noteq> []" using i m by auto
  have mm: "m \<noteq> MSR_MOD_NONE" "\<not> mod_index MSR_MOD_MAX \<le> mod_index m"
    using ne m DetectMsrMod_range [of e w] by (auto simp: msrPresets_NONE)
  let ?w3 = "LogPrintf (L_applying m (length ?preset) (m_cache_qos w2)) w2"
  let ?w4 = "if m_cache_qos ?w3 \<and> ta = [] then LogPrintf L_qos_needs_affinity ?w3 else ?w3"
  have w4: "msr_instance ?w4 = msr_instance w" "trace ?w4 = trace w" "regs ?w4 = regs w"
    "m_initialized ?w4" "\<not> m_enabled ?w4"
    using df by (simp_all add: ctl_eq_def)
  have av4: "isAvailable (fst (Msr_get e ?w4))"
    using av Msr_get_indep [OF w4(1), of e] by simp
  from ApplyMsrPreset_backup_fails [OF av4, of i ?preset ta "m_cache_qos ?w4"] i rd m w4
  obtain w5 where a: "ApplyMsrPreset e ?preset ta (m_cache_qos ?w4) ?w4 = (False, w5)"
    and w5: "original_msrs w5 = []" "regs w5 = regs w"
       "filter is_write (trace w5) = filter is_write (trace w)" "m_initialized w5"
    by auto
  show ?thesis
    using ni d ne mm a w5
    by (simp add: Init_def Let_def del: mod_index.simps)
qed


text \<open>
  Claim C10. \<^verbatim>\<open>Msr::read\<close> signals success only by the validity of the item it
  returns: the item is valid exactly when the register index is not 0 and the device
  read succeeded. For register index 0 the returned item is invalid whatever the device
  did, and a backup loop that meets an item with register 0 gives up as on a read
  failure.
\<close>

theorem Msr_read_validity:
  "(isValid (fst (Msr_read e this reg cpu verbose w))
      \<longleftrightarrow> reg \<noteq> 0 \<and> fst (rdmsr e reg cpu w) \<noteq> None)
   \<and> \<not> isValid (fst (Msr_read e this 0 cpu verbose w))
   \<and> \<not> fst (backup_loop e this (item\<lparr>m_reg := 0\<rparr> # items) w)"
  by (simp add: Msr_read_def split: prod.splits option.splits)

theorem Msr_read_validity_witness:
  "fst (rdmsr (env_intel rd_always wr_always) 0 (- 1) (world0 regs_by_cpu)) = Some 0x10
   \<and> \<not> isValid (fst (Msr_read (env_intel rd_always wr_always) \<lparr>m_available = True\<rparr>
                       0 (- 1) True (world0 regs_by_cpu)))
   \<and> isValid (fst (Msr_read (env_intel rd_always wr_always) \<lparr>m_available = True\<rparr>
                     0x1a4 (- 1) True (world0 regs_by_cpu)))"
proof -
  have "fst (rdmsr (env_intel rd_always wr_always) 0 (- 1) (world0 regs_by_cpu)) = Some 0x10"
    by code_simp
  moreover have "fst (rdmsr (env_intel rd_always wr_always) 0x1a4 (- 1) (world0 regs_by_cpu)) \<noteq> None"
    by code_simp
  ultimately show ?thesis
    using Msr_read_validity [of "env_intel rd_always wr_always" "\<lparr>m_available = True\<rparr>"
        "0x1a4" "- 1" True "world0 regs_by_cpu"]
      Msr_read_validity [of "env_intel rd_always wr_always" "\<lparr>m_available = True\<rparr>"
        0 "- 1" True "world0 regs_by_cpu"]
    by simp
qed

text \<open>
  Claim C6. When a backup read of \<^verbatim>\<open>Init\<close> fails (the \<open>i\<close>-th register of the
  selected preset cannot be read at the moment its read is due), \<^verbatim>\<open>Init\<close> returns
  \<^verbatim>\<open>false\<close>, the backup set is empty, the controller is initialized and not enabled
  (Disabled), the register file is unchanged and no write has been issued: the trace
  holds the same write events as before the call.
\<close>

theorem Init_backup_read_failure:
  assumes "\<not> m_initialized w"
    and "isAvailable (fst (Msr_get e w))"
    and "i < length (msrPresets ! mod_index (fst (DetectMsrMod e w)))"
    and "\<not> rd_ok e (length (trace w) + i) (msr_open_cpu e (- 1))
            (m_reg (msrPresets ! mod_index (fst (DetectMsrMod e w)) ! i))"
  shows "fst (Init e thread_affinities enable_cache_qos w) = False
    \<and> original_msrs (snd (Init e thread_affinities enable_cache_qos w)) = []
    \<and> m_initialized (snd (Init e thread_affinities enable_cache_qos w))
    \<and> \<not> m_enabled (snd (Init e thread_affinities enable_cache_qos w))
    \<and> regs (snd (Init e thread_affinities enable_cache_qos w)) = regs w
    \<and> filter is_write (trace (snd (Init e thread_affinities enable_cache_qos w)))
        = filter is_write (trace w)"
  using Init_backup_fails [OF assms, of thread_affinities enable_cache_qos] by auto

theorem Init_backup_read_failure_witness:
  "\<not> m_initialized (world0 regs_by_cpu)
   \<and> isAvailable (fst (Msr_get (env_intel rd_first_fails wr_always) (world0 regs_by_cpu)))
   \<and> 0 < length (msrPresets ! mod_index
           (fst (DetectMsrMod (env_intel rd_first_fails wr_always) (world0 regs_by_cpu))))
   \<and> fst (Init (env_intel rd_first_fails wr_always) [0] True (world0 regs_by_cpu)) = False
   \<and> original_msrs (snd (Init (env_intel rd_first_fails wr_always) [0] True (world0 regs_by_cpu))) = []
   \<and> regs (snd (Init (env_intel rd_first_fails wr_always) [0] True (world0 regs_by_cpu)))
       = regs (world0 regs_by_cpu)
   \<and> filter is_write (trace (snd (Init (env_intel rd_first_fails wr_always) [0] True (world0 regs_by_cpu))))
       = filter is_write (trace (world0 regs_by_cpu))"
proof -
  let ?e = "env_intel rd_first_fails wr_always" and ?w = "world0 regs_by_cpu"
  have h1: "\<not> m_initialized ?w"
    by code_simp
  have h2: "isAvailable (fst (Msr_get ?e ?w))"
    by code_simp
  have h3: "0 < length (msrPresets ! mod_index (fst (DetectMsrMod ?e ?w)))"
    by code_simp
  have h4: "\<not> rd_ok ?e (length (trace ?w) + 0) (msr_open_cpu ?e (- 1))
              (m_reg (msrPresets ! mod_index (fst (DetectMsrMod ?e ?w)) ! 0))"
    by code_simp
  show ?thesis
    using Init_backup_read_failure [OF h1 h2 h3 h4, of "[0]" True] h1 h2 h3 by simp
qed

text \<open>
  Claim C3, as the code has it. \<^verbatim>\<open>Destroy\<close> on a controller that is not initialized, or
  whose backup set is empty, returns at once: no device is accessed and no state
  changes.
\<close>

theorem Destroy_without_backup_is_noop:
  "\<not> m_initialized w \<or> original_msrs w = [] \<Longrightarrow> Destroy e w = w"
  by (auto simp: Destroy_def)

theorem Destroy_without_backup_is_noop_witness:
  "\<not> m_initialized (world0 regs_by_cpu)
   \<and> original_msrs (world0 regs_by_cpu) = []
   \<and> Destroy (env_intel rd_always wr_always) (world0 regs_by_cpu) = world0 regs_by_cpu"
proof -
  have h: "\<not> m_initialized (world0 regs_by_cpu) \<or> original_msrs (world0 regs_by_cpu) = []"
    by (simp add: world0_def)
  show ?thesis
    using Destroy_without_backup_is_noop [OF h, of "env_intel rd_always wr_always"]
    by (simp add: world0_def)
qed

text \<open>
  The claim as stated fails after an \<^verbatim>\<open>Init\<close> that failed during the apply broadcast:
  on the two-CPU Intel machine whose third device access (the preset write on CPU 1)
  fails, \<^verbatim>\<open>Init\<close> returns \<^verbatim>\<open>false\<close> and leaves the controller initialized and not
  enabled, and \<^verbatim>\<open>Destroy\<close> then writes the backup to both CPUs.
\<close>

theorem Destroy_after_failed_apply_counterexample:
  "fst (Init (env_intel rd_always wr_third_fails) [] False (world0 regs_by_cpu)) = False
   \<and> m_initialized (snd (Init (env_intel rd_always wr_third_fails) [] False (world0 regs_by_cpu)))
   \<and> \<not> m_enabled (snd (Init (env_intel rd_always wr_third_fails) [] False (world0 regs_by_cpu)))
   \<and> trace (Destroy (env_intel rd_always wr_third_fails)
              (snd (Init (env_intel rd_always wr_third_fails) [] False (world0 regs_by_cpu))))
      = trace (snd (Init (env_intel rd_always wr_third_fails) [] False (world0 regs_by_cpu)))
        @ [EvWrite 0 0x1a4 0x10 True, EvWrite 1 0x1a4 0x10 True]"
  by code_simp

text \<open>
  Claim C4, as the code has it. After an \<^verbatim>\<open>Init\<close> that failed on a backup read, the
  controller stays initialized: a later \<^verbatim>\<open>Init\<close>, in whatever environment and with
  whatever arguments, returns \<^verbatim>\<open>false\<close> at once and changes nothing, and a
  \<^verbatim>\<open>Destroy\<close> changes nothing either, so it does not make \<^verbatim>\<open>Init\<close> available again.
\<close>

theorem Init_not_retried_after_backup_failure:
  assumes "\<not> m_initialized w"
    and "isAvailable (fst (Msr_get e w))"
    and "i < length (msrPresets ! mod_index (fst (DetectMsrMod e w)))"
    and "\<not> rd_ok e (length (trace w) + i) (msr_open_cpu e (- 1))
            (m_reg (msrPresets ! mod_index (fst (DetectMsrMod e w)) ! i))"
  shows "Init e' ta' q' (snd (Init e ta q w)) = (False, snd (Init e ta q w))
    \<and> Destroy e' (snd (Init e ta q w)) = snd (Init e ta q w)"
proof -
  from Init_backup_fails [OF assms, of ta q]
  obtain w' where "Init e ta q w = (False, w')" "original_msrs w' = []"
    "m_initialized w'" "\<not> m_enabled w'"
    by auto
  then show ?thesis
    by (simp add: Init_def Destroy_def)
qed

theorem Init_not_retried_after_backup_failure_witness:
  "\<not> m_initialized (world0 regs_by_cpu)
   \<and> isAvailable (fst (Msr_get (env_intel rd_first_fails wr_always) (world0 regs_by_cpu)))
   \<and> fst (Init (env_intel rd_always wr_always) [] False
        (snd (Init (env_intel rd_first_fails wr_always) [] False (world0 regs_by_cpu)))) = False
   \<and> Destroy (env_intel rd_always wr_always)
        (snd (Init (env_intel rd_first_fails wr_always) [] False (world0 regs_by_cpu)))
      = snd (Init (env_intel rd_first_fails wr_always) [] False (world0 regs_by_cpu))"
proof -
  let ?e = "env_intel rd_first_fails wr_always" and ?w = "world0 regs_by_cpu"
  have h1: "\<not> m_initialized ?w"
    by code_simp
  have h2: "isAvailable (fst (Msr_get ?e ?w))"
    by code_simp
  have h3: "0 < length (msrPresets ! mod_index (fst (DetectMsrMod ?e ?w)))"
    by code_simp
  have h4: "\<not> rd_ok ?e (length (trace ?w) + 0) (msr_open_cpu ?e (- 1))
              (m_reg (msrPresets ! mod_index (fst (DetectMsrMod ?e ?w)) ! 0))"
    by code_simp
  show ?thesis
    using Init_not_retried_after_backup_failure [OF h1 h2 h3 h4,
        of "env_intel rd_always wr_always" "[]" False "[]" False] h1 h2
    by simp
qed

text \<open>
  The claim as stated fails: on the Intel machine where only the first device access
  fails, the first \<^verbatim>\<open>Init\<close> fails on its backup read; every later read and write would
  succeed, yet the second \<^verbatim>\<open>Init\<close> returns \<^verbatim>\<open>false\<close> and accesses no device, also
  after a \<^verbatim>\<open>Destroy\<close>.
\<close>

theorem Init_retry_counterexample:
  "fst (Init (env_intel rd_first_fails wr_always) [] False (world0 regs_by_cpu)) = False
   \<and> trace (snd (Init (env_intel rd_first_fails wr_always) [] False (world0 regs_by_cpu)))
       = [EvRead 0 0x1a4 False]
   \<and> fst (Init (env_intel rd_first_fails wr_always) [] False
        (Destroy (env_intel rd_first_fails wr_always)
          (snd (Init (env_intel rd_first_fails wr_always) [] False (world0 regs_by_cpu))))) = False
   \<and> trace (snd (Init (env_intel rd_first_fails wr_always) [] False
        (Destroy (env_intel rd_first_fails wr_always)
          (snd (Init (env_intel rd_first_fails wr_always) [] False (world0 regs_by_cpu))))))
       = [EvRead 0 0x1a4 False]"
  by code_simp

section \<open>Availability of the accessor\<close>

lemma Msr_write_unavailable:
  "\<not> isAvailable this \<Longrightarrow> Msr_write e this reg val cpu msk verbose w = (False, w)"
  by (simp add: Msr_write_def)

lemma Msr_new_unavailable:
  "\<not> (linux e \<and> (allow_writes_ok e \<or> modprobe_ok e)) \<Longrightarrow> \<not> isAvailable (fst (Msr_new e w))"
  by (simp add: Msr_new_def isAvailable_def Let_def)

text \<open>
  Claim C5 asks that both \<^verbatim>\<open>write\<close> and \<^verbatim>\<open>read\<close> fail fast on an unavailable
  accessor. \<^verbatim>\<open>Msr::write\<close> does (\<open>Msr_write_unavailable\<close>); \<^verbatim>\<open>Msr::read\<close> has no
  such check. On the machine where neither enablement path succeeds while the devices
  are readable, the accessor is unavailable, a write returns \<^verbatim>\<open>false\<close> without any
  device access, and a read of register \<open>0x1a4\<close> accesses the device of CPU 0 and returns
  a valid item.
\<close>

theorem Msr_read_when_unavailable:
  "\<not> isAvailable (fst (Msr_get env_unavailable (world0 regs_by_cpu)))
   \<and> fst (Msr_write env_unavailable (fst (Msr_get env_unavailable (world0 regs_by_cpu)))
             0x1a4 0xf (- 1) kNoMask True (snd (Msr_get env_unavailable (world0 regs_by_cpu)))) = False
   \<and> trace (snd (Msr_write env_unavailable (fst (Msr_get env_unavailable (world0 regs_by_cpu)))
             0x1a4 0xf (- 1) kNoMask True (snd (Msr_get env_unavailable (world0 regs_by_cpu))))) = []
   \<and> fst (Msr_read env_unavailable (fst (Msr_get env_unavailable (world0 regs_by_cpu)))
             0x1a4 (- 1) True (snd (Msr_get env_unavailable (world0 regs_by_cpu))))
       = MsrItem_new 0x1a4 0x10
   \<and> isValid (MsrItem_new 0x1a4 0x10)
   \<and> trace (snd (Msr_read env_unavailable (fst (Msr_get env_unavailable (world0 regs_by_cpu)))
             0x1a4 (- 1) True (snd (Msr_get env_unavailable (world0 regs_by_cpu)))))
       = [EvRead 0 0x1a4 True]"
  by code_simp

section \<open>The crash recovery frame\<close>

lemma Setup_keeps_thread_state:
  "exception_frame_active (SetupMainLoopExceptionFrame fe tid f) = exception_frame_active f
   \<and> exception_env (SetupMainLoopExceptionFrame fe tid f) = exception_env f"
  by (simp add: SetupMainLoopExceptionFrame_def sigaction_install_def fix_log_def
      split: prod.splits)

lemma Remove_keeps_thread_state:
  "exception_frame_active (RemoveMainLoopExceptionFrame fe tid f) = exception_frame_active f
   \<and> exception_env (RemoveMainLoopExceptionFrame fe tid f) = exception_env f"
  by (simp add: RemoveMainLoopExceptionFrame_def fix_log_def)

lemma Handler_keeps_thread_state:
  "exception_frame_active (snd (MainLoopHandler fe tid sig f)) = exception_frame_active f
   \<and> exception_env (snd (MainLoopHandler fe tid sig f)) = exception_env f"
  by (simp add: MainLoopHandler_def fix_log_def)

lemma Handler_reraises_when_inactive:
  "\<not> exception_frame_active f tid \<Longrightarrow> fst (MainLoopHandler fe tid sig f) = Reraised sig"
  by (simp add: MainLoopHandler_def)

text \<open>
  Claim C1 asks that after \<^verbatim>\<open>SetupMainLoopExceptionFrame\<close> the calling thread's flag be
  active and a resumable point be captured, so that a fault takes the jump branch of
  the handler. No function of the file writes either thread-local variable
  (\<open>Setup_keeps_thread_state\<close>, \<open>Remove_keeps_thread_state\<close>,
  \<open>Handler_keeps_thread_state\<close>). In a fresh process where both \<^verbatim>\<open>sigaction\<close> calls
  succeed, after thread 0 has called it the handlers are installed, the flag of thread 0
  is inactive, its buffer is unfilled, and the handler run on thread 0 takes the
  re-raise branch for either signal.
\<close>

theorem Setup_leaves_frame_inactive:
  "fix_initialized (SetupMainLoopExceptionFrame fix_env_ok 0 fix_world0)
   \<and> disposition_of (SetupMainLoopExceptionFrame fix_env_ok 0 fix_world0) SIGSEGV = SA_MainLoopHandler
   \<and> disposition_of (SetupMainLoopExceptionFrame fix_env_ok 0 fix_world0) SIGILL = SA_MainLoopHandler
   \<and> \<not> exception_frame_active (SetupMainLoopExceptionFrame fix_env_ok 0 fix_world0) 0
   \<and> exception_env (SetupMainLoopExceptionFrame fix_env_ok 0 fix_world0) 0 = Unfilled
   \<and> fst (MainLoopHandler fix_env_ok 0 SIGSEGV (SetupMainLoopExceptionFrame fix_env_ok 0 fix_world0))
       = Reraised SIGSEGV
   \<and> fst (MainLoopHandler fix_env_ok 0 SIGILL (SetupMainLoopExceptionFrame fix_env_ok 0 fix_world0))
       = Reraised SIGILL"
  by code_simp

section \<open>The restore broadcast of Destroy\<close>

lemma run_of_append: "run_of True a \<Longrightarrow> run_of ok b \<Longrightarrow> run_of ok (a @ b)"
  by (auto simp: run_of_def butlast_append)

lemma run_of_all: "run_of ok evs \<Longrightarrow> list_all ev_ok (butlast evs) \<and> (list_all ev_ok evs = ok)"
  by (cases evs rule: rev_cases) (auto simp: run_of_def split: if_splits)

lemma steps_refl: "steps w True w"
  by (simp add: steps_def run_of_def)

lemma steps_trans: "steps w True w1 \<Longrightarrow> steps w1 ok w2 \<Longrightarrow> steps w ok w2"
  unfolding steps_def
  by (metis append.assoc ctl_eq_trans run_of_append)

lemma wrmsr_steps:
  "linux e \<Longrightarrow> wrmsr e reg val cpu w = (ok, w') \<Longrightarrow> steps w ok w'"
  by (auto simp: wrmsr_def steps_def run_of_def ctl_eq_def Let_def)

lemma Msr_write_steps:
  assumes "linux e" and "isAvailable msr"
    and "Msr_write e msr reg val cpu msk False w = (ok, w')"
  shows "steps w ok w'"
proof (cases "msk = kNoMask")
  case True
  with assms show ?thesis
    by (auto simp: Msr_write_def intro: wrmsr_steps)
next
  case False
  obtain r w1 where rd: "rdmsr e reg cpu w = (r, w1)"
    by (cases "rdmsr e reg cpu w")
  show ?thesis
  proof (cases r)
    case None
    with rd assms False show ?thesis
      by (auto simp: Msr_write_def rdmsr_def steps_def run_of_def ctl_eq_def Let_def
          split: if_splits)
  next
    case (Some old_value)
    with rd assms(1) have "steps w True w1"
      by (auto simp: rdmsr_def steps_def run_of_def ctl_eq_def Let_def split: if_splits)
    moreover have "steps w1 ok w'"
      using rd Some assms False by (auto simp: Msr_write_def Let_def intro: wrmsr_steps)
    ultimately show ?thesis
      by (rule steps_trans)
  qed
qed

lemma write_items_steps:
  assumes "linux e" and "isAvailable msr"
  shows "write_items e msr items cpu w = (ok, w') \<Longrightarrow> steps w ok w'"
proof (induction items arbitrary: w)
  case Nil
  then show ?case by (auto intro: steps_refl)
next
  case (Cons item items)
  obtain ok1 w1 where wi: "Msr_write_item e msr item cpu False w = (ok1, w1)"
    by (cases "Msr_write_item e msr item cpu False w")
  then have s1: "steps w ok1 w1"
    using assms by (auto simp: Msr_write_item_def intro: Msr_write_steps)
  show ?case
  proof (cases ok1)
    case False
    with Cons.prems wi s1 show ?thesis by auto
  next
    case True
    with Cons.prems wi have "write_items e msr items cpu w1 = (ok, w')"
      by simp
    from Cons.IH [OF this] s1 True show ?thesis
      by (auto intro: steps_trans)
  qed
qed

lemma for_each_cpu_steps:
  assumes cb: "\<And>cpu w ok w'. callback cpu w = (ok, w') \<Longrightarrow> steps w ok w'"
  shows "for_each_cpu callback cpus w = (ok, w') \<Longrightarrow> steps w ok w'"
proof (induction cpus arbitrary: w)
  case Nil
  then show ?case by (auto intro: steps_refl)
next
  case (Cons cpu cpus)
  obtain ok1 w1 where c1: "callback cpu w = (ok1, w1)"
    by (cases "callback cpu w")
  note s1 = cb [OF c1]
  show ?case
  proof (cases ok1)
    case False
    with Cons.prems c1 s1 show ?thesis by auto
  next
    case True
    with Cons.prems c1 have "for_each_cpu callback cpus w1 = (ok, w')"
      by simp
    from Cons.IH [OF this] s1 True show ?thesis
      by (auto intro: steps_trans)
  qed
qed

lemma restore_steps:
  assumes "linux e" and "isAvailable msr"
    and "Msr_write_callback e (restore_callback e msr) w = (ok, w')"
  shows "steps w ok w'"
  using assms(3) unfolding Msr_write_callback_def
  by (rule for_each_cpu_steps [rotated])
    (auto simp: restore_callback_def intro: write_items_steps [OF assms(1,2)])

text \<open>
  Claim C2, as the code has it. \<^verbatim>\<open>Destroy\<close> on an initialized controller with a
  non-empty backup set and an available accessor stops the restore broadcast at the first
  device access that fails: every access it made before its last one succeeded, so after
  a failed write no further backup item and no further logical CPU is attempted. The
  outcome is reported in the log (a warning when an access failed), nothing is raised,
  and the backup set is cleared and the controller is uninitialized and not enabled
  afterwards.
\<close>

theorem Destroy_stops_at_first_failure:
  assumes "m_initialized w" and "original_msrs w \<noteq> []"
    and "isAvailable (fst (Msr_get e w))" and "linux e"
  shows "\<exists>evs. trace (Destroy e w) = trace w @ evs
     \<and> list_all ev_ok (butlast evs)
     \<and> logged (Destroy e w)
         = logged w @ [L_restoring, if list_all ev_ok evs then L_restored else L_restore_failed]
     \<and> original_msrs (Destroy e w) = []
     \<and> \<not> m_initialized (Destroy e w) \<and> \<not> m_enabled (Destroy e w)"
proof -
  let ?w1 = "LogPrintf L_restoring w"
  obtain msr w2 where g: "Msr_get e ?w1 = (msr, w2)"
    by (cases "Msr_get e ?w1")
  have av: "isAvailable msr"
    using assms(3) g Msr_get_indep [of ?w1 w e] by simp
  note gf = Msr_get_frame [OF g]
  obtain ok w3 where b: "Msr_write_callback e (restore_callback e msr) w2 = (ok, w3)"
    by (cases "Msr_write_callback e (restore_callback e msr) w2")
  from restore_steps [OF assms(4) av b]
  obtain evs where evs: "trace w3 = trace w2 @ evs" "run_of ok evs" "logged w3 = logged w2"
    by (auto simp: steps_def)
  note ra = run_of_all [OF evs(2)]
  have "Destroy e w = (if ok then LogPrintf L_restored w3 else LogPrintf L_restore_failed w3)
          \<lparr>original_msrs := [], m_initialized := False, m_enabled := False\<rparr>"
    using assms(1,2) g av b by (simp add: Destroy_def Let_def)
  with evs ra gf av show ?thesis
    by (intro exI [of _ evs]) auto
qed


theorem Destroy_stops_at_first_failure_witness:
  "m_initialized (snd (Init (env_intel rd_always wr_cpu0_fails_late) [] False (world0 regs_by_cpu)))
   \<and> original_msrs (snd (Init (env_intel rd_always wr_cpu0_fails_late) [] False (world0 regs_by_cpu))) \<noteq> []
   \<and> isAvailable (fst (Msr_get (env_intel rd_always wr_cpu0_fails_late)
         (snd (Init (env_intel rd_always wr_cpu0_fails_late) [] False (world0 regs_by_cpu)))))
   \<and> linux (env_intel rd_always wr_cpu0_fails_late)
   \<and> (\<exists>evs. trace (Destroy (env_intel rd_always wr_cpu0_fails_late)
                (snd (Init (env_intel rd_always wr_cpu0_fails_late) [] False (world0 regs_by_cpu))))
          = trace (snd (Init (env_intel rd_always wr_cpu0_fails_late) [] False (world0 regs_by_cpu))) @ evs
        \<and> list_all ev_ok (butlast evs))
   \<and> original_msrs (Destroy (env_intel rd_always wr_cpu0_fails_late)
        (snd (Init (env_intel rd_always wr_cpu0_fails_late) [] False (world0 regs_by_cpu)))) = []"
proof -
  let ?e = "env_intel rd_always wr_cpu0_fails_late"
  let ?w = "snd (Init ?e [] False (world0 regs_by_cpu))"
  have h1: "m_initialized ?w"
    by code_simp
  have h2: "original_msrs ?w \<noteq> []"
    by code_simp
  have h3: "isAvailable (fst (Msr_get ?e ?w))"
    by code_simp
  have h4: "linux ?e"
    by code_simp
  show ?thesis
    using Destroy_stops_at_first_failure [OF h1 h2 h3 h4] h1 h2 h3 h4 by blast
qed

text \<open>
  The claim as stated fails: on the two-CPU Intel machine where, from the fourth device
  access on, writes to CPU 0 fail while writes to CPU 1 succeed, \<^verbatim>\<open>Init\<close> succeeds and
  \<^verbatim>\<open>Destroy\<close> makes a single restore attempt, the failing write on CPU 0. CPU 1 is never
  attempted, although its write would succeed, and keeps the preset value \<open>0xf\<close>.
\<close>

theorem Destroy_best_effort_counterexample:
  "GetCPUList (env_intel rd_always wr_cpu0_fails_late) = [0, 1]
   \<and> fst (Init (env_intel rd_always wr_cpu0_fails_late) [] False (world0 regs_by_cpu)) = True
   \<and> trace (Destroy (env_intel rd_always wr_cpu0_fails_late)
        (snd (Init (env_intel rd_always wr_cpu0_fails_late) [] False (world0 regs_by_cpu))))
      = trace (snd (Init (env_intel rd_always wr_cpu0_fails_late) [] False (world0 regs_by_cpu)))
        @ [EvWrite 0 0x1a4 0x10 False]
   \<and> wr_ok (env_intel rd_always wr_cpu0_fails_late) 4 1 0x1a4 0x10
   \<and> regs (Destroy (env_intel rd_always wr_cpu0_fails_late)
        (snd (Init (env_intel rd_always wr_cpu0_fails_late) [] False (world0 regs_by_cpu)))) 1 0x1a4
      = 0xf"
  by code_simp

section \<open>Init followed by Destroy\<close>

lemma msr_open_cpu_neg: "cpu < 0 \<Longrightarrow> msr_open_cpu e cpu = 0"
  by (cases "ncpus e") (simp_all add: msr_open_cpu_def GetCPUList_def upt_conv_Cons del: upt_Suc)

lemma msr_open_cpu_nonneg: "0 \<le> cpu \<Longrightarrow> msr_open_cpu e cpu = cpu"
  by (simp add: msr_open_cpu_def)

lemma GetCPUList_nonneg: "c \<in> set (GetCPUList e) \<Longrightarrow> 0 \<le> c"
  by (auto simp: GetCPUList_def)

lemma preset_regs_nonzero:
  "m \<noteq> MSR_MOD_MAX \<Longrightarrow> it \<in> set (msrPresets ! mod_index m) \<Longrightarrow> m_reg it \<noteq> 0"
  by (cases m) (auto simp: msrPresets_def MsrItem_new_def MsrItem_masked_def)

lemma Msr_read_ok:
  assumes "linux e" and "\<And>t c r. rd_ok e t c r"
  shows "\<exists>w'. Msr_read e msr reg (- 1) True w = (MsrItem_new reg (regs w 0 reg), w')
           \<and> original_msrs w' = original_msrs w \<and> regs w' = regs w"
  using assms by (simp add: Msr_read_def rdmsr_def Let_def msr_open_cpu_neg)

lemma backup_loop_ok:
  assumes "linux e" and "\<And>t c r. rd_ok e t c r"
  shows "\<forall>it\<in>set items. m_reg it \<noteq> 0 \<Longrightarrow>
     \<exists>w'. backup_loop e msr items w = (True, w')
       \<and> original_msrs w'
           = original_msrs w @ map (\<lambda>it. MsrItem_new (m_reg it) (regs w 0 (m_reg it))) items"
proof (induction items arbitrary: w)
  case Nil
  then show ?case by simp
next
  case (Cons item items)
  from Msr_read_ok [OF assms, of msr "m_reg item" w]
  obtain w1 where r: "Msr_read e msr (m_reg item) (- 1) True w
        = (MsrItem_new (m_reg item) (regs w 0 (m_reg item)), w1)"
    and w1: "original_msrs w1 = original_msrs w" "regs w1 = regs w"
    by auto
  let ?w2 = "w1\<lparr>original_msrs := original_msrs w1 @ [MsrItem_new (m_reg item) (regs w 0 (m_reg item))]\<rparr>"
  from Cons.prems have "\<forall>it\<in>set items. m_reg it \<noteq> 0" by simp
  from Cons.IH [OF this, of ?w2]
  obtain w' where "backup_loop e msr items ?w2 = (True, w')"
    and "original_msrs w' = original_msrs ?w2
           @ map (\<lambda>it. MsrItem_new (m_reg it) (regs ?w2 0 (m_reg it))) items"
    by auto
  with r w1 Cons.prems show ?case
    by simp
qed

lemma ctl_eq_LogPrintf_left [simp]: "ctl_eq (LogPrintf m w) w' = ctl_eq w w'"
  by (simp add: ctl_eq_def LogPrintf_def)

lemma wrmsr_frame: "wrmsr e reg val cpu w = (ok, w') \<Longrightarrow> ctl_eq w w'"
  by (auto simp: wrmsr_def ctl_eq_def Let_def split: if_splits)

lemma Msr_write_frame: "Msr_write e msr reg val cpu msk verbose w = (ok, w') \<Longrightarrow> ctl_eq w w'"
  by (auto simp: Msr_write_def Let_def split: if_splits prod.splits option.splits
      dest!: rdmsr_frame wrmsr_frame intro: ctl_eq_trans)

lemma write_items_frame: "write_items e msr items cpu w = (ok, w') \<Longrightarrow> ctl_eq w w'"
proof (induction items arbitrary: w)
  case Nil
  then show ?case by auto
next
  case (Cons item items)
  then show ?case
    by (auto simp: Msr_write_item_def split: prod.splits if_splits
        dest!: Msr_write_frame intro: ctl_eq_trans)
qed

lemma apply_cache_qos_frame: "apply_cache_qos e msr ce cpu w = (ok, w') \<Longrightarrow> ctl_eq w w'"
  by (auto simp: apply_cache_qos_def split: prod.splits if_splits
      dest!: Msr_write_frame intro: ctl_eq_trans)

lemma apply_callback_frame:
  "apply_callback e msr preset ce q qd cpu w = (ok, w') \<Longrightarrow> ctl_eq w w'"
  by (auto simp: apply_callback_def split: prod.splits if_splits
      dest!: write_items_frame apply_cache_qos_frame intro: ctl_eq_trans)

lemma for_each_cpu_frame:
  assumes cb: "\<And>cpu w ok w'. callback cpu w = (ok, w') \<Longrightarrow> ctl_eq w w'"
  shows "for_each_cpu callback cpus w = (ok, w') \<Longrightarrow> ctl_eq w w'"
proof (induction cpus arbitrary: w)
  case Nil
  then show ?case by auto
next
  case (Cons cpu cpus)
  then show ?case
    by (auto split: prod.splits if_splits dest!: cb intro: ctl_eq_trans)
qed


lemma Msr_write_item_ok:
  assumes "linux e" and "isAvailable msr" and "\<And>t c r v. wr_ok e t c r v"
    and "m_mask item = kNoMask" and "0 \<le> cpu"
  shows "\<exists>w'. Msr_write_item e msr item cpu False w = (True, w')
           \<and> regs w' = (regs w)(cpu := (regs w cpu)(m_reg item := m_value item))
           \<and> original_msrs w' = original_msrs w"
  using assms
  by (simp add: Msr_write_item_def Msr_write_def wrmsr_def Let_def msr_open_cpu_nonneg)

lemma write_items_restore:
  assumes "linux e" and "isAvailable msr" and "\<And>t c r v. wr_ok e t c r v" and "0 \<le> cpu"
  shows "\<forall>it\<in>set items. m_mask it = kNoMask \<and> m_value it = g (m_reg it) \<Longrightarrow>
     \<exists>w'. write_items e msr items cpu w = (True, w')
       \<and> (\<forall>c r. regs w' c r = (if c = cpu \<and> r \<in> m_reg ` set items then g r else regs w c r))
       \<and> original_msrs w' = original_msrs w"
proof (induction items arbitrary: w)
  case Nil
  then show ?case by simp
next
  case (Cons item items)
  from Cons.prems have m: "m_mask item = kNoMask" and v: "m_value item = g (m_reg item)"
    and rest: "\<forall>it\<in>set items. m_mask it = kNoMask \<and> m_value it = g (m_reg it)"
    by simp_all
  from Msr_write_item_ok [OF assms(1-3) m assms(4), of w]
  obtain w1 where w1: "Msr_write_item e msr item cpu False w = (True, w1)"
    "regs w1 = (regs w)(cpu := (regs w cpu)(m_reg item := m_value item))"
    "original_msrs w1 = original_msrs w"
    by auto
  from Cons.IH [OF rest, of w1]
  obtain w' where w': "write_items e msr items cpu w1 = (True, w')"
    "\<forall>c r. regs w' c r = (if c = cpu \<and> r \<in> m_reg ` set items then g r else regs w1 c r)"
    "original_msrs w' = original_msrs w1"
    by auto
  show ?case
    using w1 w' v by (intro exI [of _ w']) auto
qed

lemma for_each_cpu_restore:
  assumes "linux e" and "isAvailable msr" and "\<And>t c r v. wr_ok e t c r v"
  shows "\<forall>it\<in>set (original_msrs w). m_mask it = kNoMask \<and> m_value it = g (m_reg it) \<Longrightarrow>
     \<forall>c\<in>set cpus. 0 \<le> c \<Longrightarrow>
     \<exists>w'. for_each_cpu (restore_callback e msr) cpus w = (True, w')
       \<and> (\<forall>c r. regs w' c r
             = (if c \<in> set cpus \<and> r \<in> m_reg ` set (original_msrs w) then g r else regs w c r))
       \<and> original_msrs w' = original_msrs w"
proof (induction cpus arbitrary: w)
  case Nil
  then show ?case by simp
next
  case (Cons cpu cpus)
  from Cons.prems have c0: "0 \<le> cpu" and rest: "\<forall>c\<in>set cpus. 0 \<le> c"
    by simp_all
  from write_items_restore [OF assms c0 Cons.prems(1), of w]
  obtain w1 where w1: "write_items e msr (original_msrs w) cpu w = (True, w1)"
    "\<forall>c r. regs w1 c r
       = (if c = cpu \<and> r \<in> m_reg ` set (original_msrs w) then g r else regs w c r)"
    "original_msrs w1 = original_msrs w"
    by auto
  have "\<forall>it\<in>set (original_msrs w1). m_mask it = kNoMask \<and> m_value it = g (m_reg it)"
    using Cons.prems(1) w1(3) by simp
  from Cons.IH [OF this rest]
  obtain w' where w': "for_each_cpu (restore_callback e msr) cpus w1 = (True, w')"
    "\<forall>c r. regs w' c r
       = (if c \<in> set cpus \<and> r \<in> m_reg ` set (original_msrs w1) then g r else regs w1 c r)"
    "original_msrs w' = original_msrs w1"
    by auto
  have cb: "restore_callback e msr cpu w = (True, w1)"
    using w1(1) by (simp add: restore_callback_def)
  show ?case
    using cb w1(2,3) w' by (intro exI [of _ w']) auto
qed

lemma ApplyMsrPreset_backup:
  assumes av: "isAvailable (fst (Msr_get e w))" and lx: "linux e"
    and rd: "\<And>t c r. rd_ok e t c r"
    and nz: "\<forall>it\<in>set preset. m_reg it \<noteq> 0"
  shows "\<exists>ok w'. ApplyMsrPreset e preset ta q w = (ok, w')
     \<and> original_msrs w' = map (\<lambda>it. MsrItem_new (m_reg it) (regs w 0 (m_reg it))) preset
     \<and> m_initialized w' = m_initialized w
     \<and> msr_instance w' = Some (fst (Msr_get e w))"
proof -
  obtain msr w1 where g: "Msr_get e w = (msr, w1)"
    by (cases "Msr_get e w")
  note gf = Msr_get_frame [OF g]
  let ?w2 = "w1\<lparr>original_msrs := []\<rparr>"
  from backup_loop_ok [OF lx rd nz, of msr ?w2]
  obtain w3 where b: "backup_loop e msr preset ?w2 = (True, w3)"
    and o3: "original_msrs w3 = map (\<lambda>it. MsrItem_new (m_reg it) (regs ?w2 0 (m_reg it))) preset"
    by auto
  note bf = backup_loop_frame [OF b]
  let ?no_cat = "q \<and> ta \<noteq> [] \<and> \<not> HasCatL3 e"
  let ?w4 = "if ?no_cat then LogPrintf L_no_cat_l3 w3 else w3"
  let ?cb = "apply_callback e msr preset (set ta) (if ?no_cat then False else q) (ta = [])"
  obtain ok w5 where a: "Msr_write_callback e ?cb ?w4 = (ok, w5)"
    by (cases "Msr_write_callback e ?cb ?w4")
  have "ctl_eq ?w4 w5"
    using a unfolding Msr_write_callback_def
    by (rule for_each_cpu_frame [rotated]) (rule apply_callback_frame)
  then have f5: "original_msrs w5 = original_msrs w3" "m_initialized w5 = m_initialized w3"
    "msr_instance w5 = msr_instance w3"
    by (auto simp: ctl_eq_def split: if_splits)
  have "ApplyMsrPreset e preset ta q w = (ok, w5)"
    using av g b a by (simp add: ApplyMsrPreset_def Let_def)
  with f5 o3 bf gf g show ?thesis
    by simp
qed


lemma Init_backup_taken:
  assumes ni: "\<not> m_initialized w"
    and av: "isAvailable (fst (Msr_get e w))" and lx: "linux e"
    and rd: "\<And>t c r. rd_ok e t c r"
    and ne: "msrPresets ! mod_index (fst (DetectMsrMod e w)) \<noteq> []"
  shows "m_initialized (snd (Init e ta q w))
     \<and> original_msrs (snd (Init e ta q w))
         = map (\<lambda>it. MsrItem_new (m_reg it) (regs w 0 (m_reg it)))
             (msrPresets ! mod_index (fst (DetectMsrMod e w)))
     \<and> msr_instance (snd (Init e ta q w)) = Some (fst (Msr_get e w))"
proof -
  let ?w1 = "w\<lparr>m_initialized := True, m_enabled := False, m_cache_qos := q\<rparr>"
  obtain m w2 where d: "DetectMsrMod e ?w1 = (m, w2)"
    by (cases "DetectMsrMod e ?w1")
  have m: "m = fst (DetectMsrMod e w)"
    using d DetectMsrMod_indep [of e ?w1 w] by simp
  note df = DetectMsrMod_frame [OF d]
  let ?preset = "msrPresets ! mod_index m"
  have mm: "m \<noteq> MSR_MOD_NONE" "\<not> mod_index MSR_MOD_MAX \<le> mod_index m" "m \<noteq> MSR_MOD_MAX"
    using ne m DetectMsrMod_range [of e w] by (auto simp: msrPresets_NONE)
  have nz: "\<forall>it\<in>set ?preset. m_reg it \<noteq> 0"
    using mm(3) by (auto dest: preset_regs_nonzero)
  let ?w3 = "LogPrintf (L_applying m (length ?preset) (m_cache_qos w2)) w2"
  let ?w4 = "if m_cache_qos ?w3 \<and> ta = [] then LogPrintf L_qos_needs_affinity ?w3 else ?w3"
  have w4: "msr_instance ?w4 = msr_instance w" "regs ?w4 = regs w" "m_initialized ?w4"
    using df by (simp_all add: ctl_eq_def)
  have g4: "fst (Msr_get e ?w4) = fst (Msr_get e w)"
    using Msr_get_indep [OF w4(1), of e] by simp
  with av have av4: "isAvailable (fst (Msr_get e ?w4))"
    by simp
  from ApplyMsrPreset_backup [OF av4 lx rd nz, of ta "m_cache_qos ?w4"]
  obtain ok w5 where a: "ApplyMsrPreset e ?preset ta (m_cache_qos ?w4) ?w4 = (ok, w5)"
    and w5: "original_msrs w5 = map (\<lambda>it. MsrItem_new (m_reg it) (regs ?w4 0 (m_reg it))) ?preset"
      "m_initialized w5 = m_initialized ?w4" "msr_instance w5 = Some (fst (Msr_get e ?w4))"
    by blast
  show ?thesis
    using ni d ne mm a w5 w4 g4 m
    by (auto simp: Init_def Let_def simp del: mod_index.simps)
qed

text \<open>
  Claim C7, as the code has it. With an available accessor on a backend where every
  read and every write succeeds, \<^verbatim>\<open>Init\<close> on an uninitialized controller followed by
  \<^verbatim>\<open>Destroy\<close> leaves every register of the selected preset, on every logical CPU, equal
  to the value that register had on logical CPU 0 before \<^verbatim>\<open>Init\<close>: the backup is read
  once, on CPU 0, and written back to all CPUs. CPU 0 is restored to its own earlier
  values, and another CPU is when it held the same values as CPU 0.
\<close>

theorem Init_Destroy_restores_cpu0_values:
  assumes "\<not> m_initialized w"
    and "isAvailable (fst (Msr_get e w))" and "linux e"
    and "\<forall>t c r. rd_ok e t c r" and "\<forall>t c r v. wr_ok e t c r v"
    and "cpu \<in> set (GetCPUList e)"
    and "item \<in> set (msrPresets ! mod_index (fst (DetectMsrMod e w)))"
  shows "regs (Destroy e (snd (Init e thread_affinities enable_cache_qos w))) cpu (m_reg item)
     = regs w 0 (m_reg item)"
proof -
  let ?preset = "msrPresets ! mod_index (fst (DetectMsrMod e w))"
  let ?w1 = "snd (Init e thread_affinities enable_cache_qos w)"
  let ?g = "\<lambda>r. regs w 0 r"
  have rd: "\<And>t c r. rd_ok e t c r" and wr: "\<And>t c r v. wr_ok e t c r v"
    using assms(4,5) by simp_all
  have ne: "?preset \<noteq> []"
    using assms(7) by auto
  note i = Init_backup_taken [OF assms(1-3) rd ne, of thread_affinities enable_cache_qos]
  let ?msr = "fst (Msr_get e w)"
  let ?w2 = "LogPrintf L_restoring ?w1"
  have g: "Msr_get e ?w2 = (?msr, ?w2)"
    using i by (simp add: Msr_get_def)
  have items: "\<forall>it\<in>set (original_msrs ?w2). m_mask it = kNoMask \<and> m_value it = ?g (m_reg it)"
    using i by (auto simp: MsrItem_new_def)
  have cpus: "\<forall>c\<in>set (GetCPUList e). 0 \<le> c"
    by (auto dest: GetCPUList_nonneg)
  from for_each_cpu_restore [OF assms(3,2) wr items cpus]
  obtain w3 where r: "for_each_cpu (restore_callback e ?msr) (GetCPUList e) ?w2 = (True, w3)"
    and r3: "\<forall>c r. regs w3 c r
       = (if c \<in> set (GetCPUList e) \<and> r \<in> m_reg ` set (original_msrs ?w2) then ?g r
          else regs ?w2 c r)"
    by blast
  have "m_reg item \<in> m_reg ` set (original_msrs ?w2)"
    using i assms(7) by (auto simp: MsrItem_new_def image_iff)
  with r3 assms(6) have "regs w3 cpu (m_reg item) = regs w 0 (m_reg item)"
    by simp
  moreover have "regs (Destroy e ?w1) = regs w3"
    using i ne g r assms(2) by (simp add: Destroy_def Let_def Msr_write_callback_def)
  ultimately show ?thesis
    by simp
qed


theorem Init_Destroy_restores_cpu0_values_witness:
  "\<not> m_initialized (world0 regs_by_cpu)
   \<and> isAvailable (fst (Msr_get (env_intel rd_always wr_always) (world0 regs_by_cpu)))
   \<and> linux (env_intel rd_always wr_always)
   \<and> 1 \<in> set (GetCPUList (env_intel rd_always wr_always))
   \<and> MsrItem_new 0x1a4 0xf \<in> set (msrPresets ! mod_index
         (fst (DetectMsrMod (env_intel rd_always wr_always) (world0 regs_by_cpu))))
   \<and> regs (Destroy (env_intel rd_always wr_always)
         (snd (Init (env_intel rd_always wr_always) [0] True (world0 regs_by_cpu))))
         1 (m_reg (MsrItem_new 0x1a4 0xf))
       = regs (world0 regs_by_cpu) 0 (m_reg (MsrItem_new 0x1a4 0xf))"
proof -
  let ?e = "env_intel rd_always wr_always" and ?w = "world0 regs_by_cpu"
  have h1: "\<not> m_initialized ?w"
    by code_simp
  have h2: "isAvailable (fst (Msr_get ?e ?w))"
    by code_simp
  have h3: "linux ?e"
    by code_simp
  have h4: "\<forall>t c r. rd_ok ?e t c r"
    by (simp add: env_intel_def rd_always_def)
  have h5: "\<forall>t c r v. wr_ok ?e t c r v"
    by (simp add: env_intel_def wr_always_def)
  have h6: "1 \<in> set (GetCPUList ?e)"
    by code_simp
  have h7: "MsrItem_new 0x1a4 0xf \<in> set (msrPresets ! mod_index (fst (DetectMsrMod ?e ?w)))"
    by code_simp
  show ?thesis
    using Init_Destroy_restores_cpu0_values [OF h1 h2 h3 h4 h5 h6 h7, of "[0]" True]
      h1 h2 h3 h6 h7
    by simp
qed

text \<open>
  The claim as stated fails on a backend whose CPUs differ: on the two-CPU Intel machine
  where register \<open>0x1a4\<close> holds \<open>0x10\<close> on CPU 0 and \<open>0x11\<close> on CPU 1 and every access
  succeeds, \<^verbatim>\<open>Init\<close> succeeds and after \<^verbatim>\<open>Destroy\<close> the register holds \<open>0x10\<close> on
  CPU 1, not its value \<open>0x11\<close> from before \<^verbatim>\<open>Init\<close>.
\<close>

theorem Init_Destroy_round_trip_counterexample:
  "fst (Init (env_intel rd_always wr_always) [] False (world0 regs_by_cpu)) = True
   \<and> regs (world0 regs_by_cpu) 1 0x1a4 = 0x11
   \<and> regs (snd (Init (env_intel rd_always wr_always) [] False (world0 regs_by_cpu))) 1 0x1a4 = 0xf
   \<and> regs (Destroy (env_intel rd_always wr_always)
         (snd (Init (env_intel rd_always wr_always) [] False (world0 regs_by_cpu)))) 1 0x1a4
       = 0x10"
  by code_simp

end
